theory Spec2Isabelle
  imports Main "HOL-Library.Sublist"
begin

section \<open>Exceptions, effects and the network\<close>

text \<open>
  The exception classes that the functions of \<^verbatim>\<open>app.py\<close> can meet. The first four are
  subclasses of \<^verbatim>\<open>aiohttp.ClientError\<close>; the others are not. Every one of them is a
  subclass of Python's \<^verbatim>\<open>Exception\<close>.
\<close>

datatype exc =
    ClientConnectionError      \<comment> \<open>the connection could not be made or was lost\<close>
  | ServerTimeoutError         \<comment> \<open>a socket read or connect timeout\<close>
  | ClientResponseError nat    \<comment> \<open>raised by \<^verbatim>\<open>raise_for_status()\<close>, with the status\<close>
  | InvalidURL                 \<comment> \<open>the URL given to \<^verbatim>\<open>session.get\<close> is malformed\<close>
  | UnicodeDecodeError         \<comment> \<open>\<^verbatim>\<open>response.text()\<close> cannot decode the body\<close>
  | ValueError
  | TypeError
  | KeyError

text \<open>\<^verbatim>\<open>isinstance(e, aiohttp.ClientError)\<close>, the test of the \<^verbatim>\<open>except\<close> clause.\<close>

fun is_ClientError :: "exc \<Rightarrow> bool" where
  "is_ClientError ClientConnectionError = True"
| "is_ClientError ServerTimeoutError = True"
| "is_ClientError (ClientResponseError status) = True"
| "is_ClientError InvalidURL = True"
| "is_ClientError UnicodeDecodeError = False"
| "is_ClientError ValueError = False"
| "is_ClientError TypeError = False"
| "is_ClientError KeyError = False"

text \<open>
  What the program does to the outside world, in the order it does it: a GET request,
  \<^verbatim>\<open>asyncio.sleep\<close>, \<^verbatim>\<open>print\<close> (the log) and \<^verbatim>\<open>st.error\<close> (the message shown to the user).
\<close>

datatype event =
    Get string                 \<comment> \<open>\<^verbatim>\<open>session.get(url, ...)\<close>\<close>
  | Sleep int                  \<comment> \<open>\<^verbatim>\<open>asyncio.sleep(d)\<close>\<close>
  | PrintExcluded string       \<comment> \<open>\<^verbatim>\<open>print(f"Excluded: ...")\<close>\<close>
  | PrintError string exc      \<comment> \<open>\<^verbatim>\<open>print(f"An unexpected error occurred ... {url}: {e}")\<close>\<close>
  | StError exc                \<comment> \<open>\<^verbatim>\<open>st.error(f"Failed to fetch data: {e}")\<close>\<close>

text \<open>
  The text of a response is represented by what \<^verbatim>\<open>BeautifulSoup(text, "html.parser")\<close>
  makes of it: either the constructor raises, or there is a document, of which the program
  reads two things only: the \<^verbatim>\<open>a\<close> elements in document order (each with its
  \<^verbatim>\<open>href\<close> attribute, if it has one), and the \<^verbatim>\<open>div\<close> elements of class
  \<^verbatim>\<open>tF2Cxc\<close> in document order (each with its first \<^verbatim>\<open>a\<close> descendant, if it has one,
  and that element's \<^verbatim>\<open>href\<close>).
\<close>

record soup =
  find_all_a :: "string option list"
  find_all_div_tF2Cxc :: "string option option list"

datatype markup = Malformed exc | Document soup

text \<open>
  One request as the network answers it: \<^verbatim>\<open>session.get\<close> raises, or there is a response
  with a status and a body that \<^verbatim>\<open>response.text()\<close> decodes or fails to decode.
\<close>

datatype attempt = GetRaises exc | Response nat "exc + markup"

text \<open>
  The body of the \<^verbatim>\<open>try\<close> block of \<^verbatim>\<open>fetch_with_retries\<close>:
  \<^verbatim>\<open>raise_for_status()\<close> raises \<^verbatim>\<open>ClientResponseError\<close> for a status of 400 or more.
\<close>

fun get_text :: "attempt \<Rightarrow> exc + markup" where
  "get_text (GetRaises e) = Inl e"
| "get_text (Response status text) =
     (if 400 \<le> status then Inl (ClientResponseError status) else text)"

text \<open>
  A scripted network, as a test stub has it: the requests are answered from a list, in
  order, and every request after the last scripted answer finds the connection refused.
\<close>

definition stub :: "attempt list \<Rightarrow> nat \<Rightarrow> attempt" where
  "stub answers i = (if i < length answers then answers ! i else GetRaises ClientConnectionError)"

section \<open>\<^verbatim>\<open>fetch_with_retries\<close>\<close>

text \<open>\<^verbatim>\<open>range(n)\<close> for an integer \<open>n\<close>: empty when \<open>n \<le> 0\<close>.\<close>

definition range_py :: "int \<Rightarrow> nat list" where
  "range_py n = [0..<nat n]"

text \<open>
  The \<^verbatim>\<open>for attempt in range(retries)\<close> loop, over the attempts that remain. The network
  \<open>net\<close> gives the answer to the request of each attempt. The result is the trace of
  effects and the outcome: \<open>Inl e\<close> when \<open>e\<close> is raised, \<open>Inr (Some text)\<close> when the text
  is returned, \<open>Inr None\<close> when the loop ends and the function returns Python's \<^verbatim>\<open>None\<close>.
\<close>

fun fetch_loop ::
  "string \<Rightarrow> (nat \<Rightarrow> attempt) \<Rightarrow> int \<Rightarrow> int \<Rightarrow> nat list \<Rightarrow> event list \<times> (exc + markup option)"
where
  "fetch_loop url net retries backoff_factor [] = ([], Inr None)"
| "fetch_loop url net retries backoff_factor (attempt # rest) =
     (case get_text (net attempt) of
        Inr text \<Rightarrow> ([Get url], Inr (Some text))
      | Inl e \<Rightarrow>
          if is_ClientError e then
            if int attempt < retries - 1 then
              (case fetch_loop url net retries backoff_factor rest of
                 (trace, r) \<Rightarrow> (Get url # Sleep (backoff_factor ^ attempt) # trace, r))
            else ([Get url], Inl e)
          else ([Get url], Inl e))"

definition fetch_with_retries ::
  "string \<Rightarrow> (nat \<Rightarrow> attempt) \<Rightarrow> int \<Rightarrow> int \<Rightarrow> event list \<times> (exc + markup option)"
where
  "fetch_with_retries url net retries backoff_factor =
     fetch_loop url net retries backoff_factor (range_py retries)"

text \<open>The defaults of the signature: \<^verbatim>\<open>retries=3, backoff_factor=2\<close>.\<close>

definition fetch_with_retries_default ::
  "string \<Rightarrow> (nat \<Rightarrow> attempt) \<Rightarrow> event list \<times> (exc + markup option)"
where
  "fetch_with_retries_default url net = fetch_with_retries url net 3 2"

text \<open>Reading a trace: the number of requests sent and the delays slept, in order.\<close>

fun attempts :: "event list \<Rightarrow> nat" where
  "attempts [] = 0"
| "attempts (Get url # es) = Suc (attempts es)"
| "attempts (e # es) = attempts es"


text \<open>
  The trace of \<open>n\<close> failed attempts, each followed by its backoff sleep, and one last
  attempt after which nothing is slept.
\<close>

definition backoff_trace :: "string \<Rightarrow> int \<Rightarrow> nat \<Rightarrow> event list" where
  "backoff_trace url backoff_factor n =
     concat (map (\<lambda>i. [Get url, Sleep (backoff_factor ^ i)]) [0..<n]) @ [Get url]"

text \<open>
  The error taxonomy in the words of the specification: transient errors are connection
  failures, timeouts and server failures (status 5xx); a malformed URL and an unparseable
  response are fatal.
\<close>

fun spec_transient :: "exc \<Rightarrow> bool" where
  "spec_transient ClientConnectionError = True"
| "spec_transient ServerTimeoutError = True"
| "spec_transient (ClientResponseError status) = (500 \<le> status \<and> status < 600)"
| "spec_transient e = False"

section \<open>\<^verbatim>\<open>urllib.parse.urlparse\<close>\<close>

text \<open>
  A model of \<^verbatim>\<open>urlparse\<close> and \<^verbatim>\<open>geturl\<close> of Python's standard library (CPython 3.11,
  \<^verbatim>\<open>urllib/parse.py\<close>) on strings of ASCII characters: the NFKC check of a network
  location, which the library makes only when the location has a character outside ASCII,
  is left out.
\<close>

record parse_result =
  scheme :: string
  netloc :: string
  path :: string
  params :: string
  query :: string
  fragment :: string

definition WHATWG_C0_CONTROL_OR_SPACE :: "char \<Rightarrow> bool" where
  "WHATWG_C0_CONTROL_OR_SPACE c = ((of_char c :: nat) \<le> 32)"

definition UNSAFE_URL_BYTES_TO_REMOVE :: "char \<Rightarrow> bool" where
  "UNSAFE_URL_BYTES_TO_REMOVE c = ((of_char c :: nat) \<in> {9, 13, 10})"

definition is_upper :: "char \<Rightarrow> bool" where
  "is_upper c = (65 \<le> (of_char c :: nat) \<and> (of_char c :: nat) \<le> 90)"

definition is_lower :: "char \<Rightarrow> bool" where
  "is_lower c = (97 \<le> (of_char c :: nat) \<and> (of_char c :: nat) \<le> 122)"

definition is_digit :: "char \<Rightarrow> bool" where
  "is_digit c = (48 \<le> (of_char c :: nat) \<and> (of_char c :: nat) \<le> 57)"

definition scheme_chars :: "char \<Rightarrow> bool" where
  "scheme_chars c = (is_lower c \<or> is_upper c \<or> is_digit c \<or> c \<in> set ''+-.'')"

definition lower :: "string \<Rightarrow> string" where
  "lower s = map (\<lambda>c. if is_upper c then char_of ((of_char c :: nat) + 32) else c) s"

definition uses_netloc :: "string list" where
  "uses_netloc = ['''', ''ftp'', ''http'', ''gopher'', ''nntp'', ''telnet'',
     ''imap'', ''wais'', ''file'', ''mms'', ''https'', ''shttp'',
     ''snews'', ''prospero'', ''rtsp'', ''rtsps'', ''rtspu'', ''rsync'',
     ''svn'', ''svn+ssh'', ''sftp'', ''nfs'', ''git'', ''git+ssh'',
     ''ws'', ''wss'']"

definition uses_params :: "string list" where
  "uses_params = ['''', ''ftp'', ''hdl'', ''prospero'', ''http'', ''imap'',
     ''https'', ''shttp'', ''rtsp'', ''rtsps'', ''rtspu'', ''sip'',
     ''sips'', ''mms'', ''sftp'', ''tel'']"

text \<open>\<^verbatim>\<open>s.split(c, 1)\<close> for a string that contains the character \<open>c\<close>.\<close>

definition split1 :: "char \<Rightarrow> string \<Rightarrow> string \<times> string" where
  "split1 c s = (takeWhile (\<lambda>x. x \<noteq> c) s, tl (dropWhile (\<lambda>x. x \<noteq> c) s))"

text \<open>\<^verbatim>\<open>_splitnetloc(url, 2)\<close>, applied to the text after the two slashes.\<close>

definition splitnetloc :: "string \<Rightarrow> string \<times> string" where
  "splitnetloc s = (takeWhile (\<lambda>x. x \<notin> set ''/?#'') s, dropWhile (\<lambda>x. x \<notin> set ''/?#'') s)"

text \<open>
  \<^verbatim>\<open>_splitparams\<close>: the parameters are what follows the first semicolon of the last
  segment of the path.
\<close>

definition splitparams :: "string \<Rightarrow> string \<times> string" where
  "splitparams url =
     (if CHR ''/'' \<in> set url then
        (let last_segment = rev (takeWhile (\<lambda>x. x \<noteq> CHR ''/'') (rev url));
             before = take (length url - length last_segment) url
         in if CHR '';'' \<in> set last_segment
            then (before @ fst (split1 CHR '';'' last_segment), snd (split1 CHR '';'' last_segment))
            else (url, ''''))
      else split1 CHR '';'' url)"

text \<open>
  The check of the host between brackets (\<^verbatim>\<open>_check_bracketed_host\<close>) rests on
  \<^verbatim>\<open>ipaddress.ip_address\<close>; what follows is \<^verbatim>\<open>ipaddress.py\<close> as far as the check
  needs it. \<^verbatim>\<open>s.split(c)\<close> first:
\<close>

fun split_on :: "char \<Rightarrow> string \<Rightarrow> string list" where
  "split_on c [] = [[]]"
| "split_on c (x # xs) =
     (if x = c then [] # split_on c xs
      else (case split_on c xs of [] \<Rightarrow> [[x]] | part # parts \<Rightarrow> (x # part) # parts))"

text \<open>\<^verbatim>\<open>int(s, 10)\<close> for a string of decimal digits, and \<^verbatim>\<open>'%x' % n\<close>.\<close>

definition int_of_digits :: "string \<Rightarrow> int" where
  "int_of_digits s = foldl (\<lambda>n c. 10 * n + ((of_char c :: int) - 48)) 0 s"

definition hex_char :: "int \<Rightarrow> char" where
  "hex_char n = char_of (if n < 10 then 48 + n else 87 + n)"

function hex_digits :: "int \<Rightarrow> string" where
  "hex_digits n =
     (if n < 16 then [hex_char n] else hex_digits (n div 16) @ [hex_char (n mod 16)])"
  by pat_completeness auto
termination
  by (relation "measure nat") auto

text \<open>
  \<^verbatim>\<open>IPv4Address._parse_octet\<close>: one to three decimal digits, no leading zero, at most 255.
  \<open>None\<close> stands for the \<^verbatim>\<open>ValueError\<close>.
\<close>

definition parse_octet :: "string \<Rightarrow> int option" where
  "parse_octet octet_str =
     (if octet_str = [] then None
      else if \<not> list_all is_digit octet_str then None
      else if 3 < length octet_str then None
      else if octet_str \<noteq> ''0'' \<and> hd octet_str = CHR ''0'' then None
      else if 255 < int_of_digits octet_str then None
      else Some (int_of_digits octet_str))"

text \<open>
  \<^verbatim>\<open>IPv4Address(address)\<close> for a string: the integer of the address, or \<open>None\<close> for the
  \<^verbatim>\<open>AddressValueError\<close>.
\<close>

definition IPv4Address :: "string \<Rightarrow> int option" where
  "IPv4Address address =
     (if CHR ''/'' \<in> set address then None
      else if address = [] then None
      else (let octets = split_on CHR ''.'' address
            in if length octets \<noteq> 4 then None
               else if list_ex (\<lambda>octet. parse_octet octet = None) octets then None
               else Some (foldl (\<lambda>n octet. 256 * n + the (parse_octet octet)) 0 octets)))"

text \<open>
  \<^verbatim>\<open>IPv6Address._parse_hextet\<close> does not raise: hexadecimal digits only, at most four,
  and \<^verbatim>\<open>int(hextet_str, 16)\<close> raises for the empty string.
\<close>

definition is_hex_digit :: "char \<Rightarrow> bool" where
  "is_hex_digit c = (c \<in> set ''0123456789ABCDEFabcdef'')"

definition parse_hextet_ok :: "string \<Rightarrow> bool" where
  "parse_hextet_ok hextet_str =
     (list_all is_hex_digit hextet_str \<and> length hextet_str \<le> 4 \<and> hextet_str \<noteq> [])"

text \<open>
  \<^verbatim>\<open>IPv6Address._ip_int_from_string\<close> does not raise. An IPv4 suffix is replaced by its
  two hextets; at most nine parts; at most one empty part between the first and the last,
  which stands for the skipped zeroes; an empty first or last part only next to it.
\<close>

definition ip6_parts_ok :: "string list \<Rightarrow> bool" where
  "ip6_parts_ok parts =
     (if 9 < length parts then False
      else
        (case filter (\<lambda>i. parts ! i = []) [1..<length parts - 1] of
           [] \<Rightarrow>
             length parts = 8 \<and> hd parts \<noteq> [] \<and> last parts \<noteq> []
             \<and> list_all parse_hextet_ok parts
         | [skip_index] \<Rightarrow>
             (let parts_hi = (if hd parts = [] then skip_index - 1 else skip_index);
                  parts_lo = (if last parts = [] then length parts - skip_index - 1 - 1
                              else length parts - skip_index - 1)
              in \<not> (hd parts = [] \<and> parts_hi \<noteq> 0)
                 \<and> \<not> (last parts = [] \<and> parts_lo \<noteq> 0)
                 \<and> parts_hi + parts_lo < 8
                 \<and> list_all parse_hextet_ok (take parts_hi parts)
                 \<and> list_all parse_hextet_ok (drop (length parts - parts_lo) parts))
         | skip_index # others \<Rightarrow> False))"

definition ip6_int_from_string_ok :: "string \<Rightarrow> bool" where
  "ip6_int_from_string_ok ip_str =
     (if ip_str = [] then False
      else (let parts = split_on CHR '':'' ip_str
            in if length parts < 3 then False
               else if CHR ''.'' \<in> set (last parts) then
                 (case IPv4Address (last parts) of
                    None \<Rightarrow> False
                  | Some ipv4_int \<Rightarrow>
                      ip6_parts_ok (butlast parts
                        @ [hex_digits (ipv4_int div 65536 mod 65536),
                           hex_digits (ipv4_int mod 65536)]))
               else ip6_parts_ok parts))"

text \<open>
  \<^verbatim>\<open>IPv6Address(address)\<close> does not raise, for a string: no slash, a scope id after a
  percent sign that is not empty and has no further percent sign, and the address itself.
\<close>

definition IPv6Address_ok :: "string \<Rightarrow> bool" where
  "IPv6Address_ok address =
     (if CHR ''/'' \<in> set address then False
      else if CHR ''%'' \<in> set address then
        (let scope_id = snd (split1 CHR ''%'' address)
         in if scope_id = [] \<or> CHR ''%'' \<in> set scope_id then False
            else ip6_int_from_string_ok (fst (split1 CHR ''%'' address)))
      else ip6_int_from_string_ok address)"

text \<open>
  \<^verbatim>\<open>_check_bracketed_host\<close> does not raise. A host that starts with \<^verbatim>\<open>v\<close> has to match
  \<^verbatim>\<open>\Av[a-fA-F0-9]+\..+\Z\<close>; any other host has to be an IPv6 address, and
  \<^verbatim>\<open>ip_address\<close> tries IPv4 first, which is refused between brackets.
\<close>

definition check_bracketed_host :: "string \<Rightarrow> bool" where
  "check_bracketed_host hostname =
     (if take 1 hostname = ''v'' then
        (let version = takeWhile is_hex_digit (tl hostname);
             rest = dropWhile is_hex_digit (tl hostname)
         in version \<noteq> [] \<and> take 1 rest = ''.'' \<and> tl rest \<noteq> []
            \<and> CHR 0x0A \<notin> set (tl rest))
      else IPv4Address hostname = None \<and> IPv6Address_ok hostname)"

text \<open>
  \<^verbatim>\<open>netloc.partition('[')[2].partition(']')[0]\<close>, for a network location with both
  brackets.
\<close>

definition bracketed_host :: "string \<Rightarrow> string" where
  "bracketed_host location =
     takeWhile (\<lambda>x. x \<noteq> CHR '']'') (snd (split1 CHR ''['' location))"

definition urlparse :: "string \<Rightarrow> exc + parse_result" where
  "urlparse url0 =
     (let url1 = filter (\<lambda>c. \<not> UNSAFE_URL_BYTES_TO_REMOVE c)
                   (dropWhile WHATWG_C0_CONTROL_OR_SPACE url0);
          before_colon = takeWhile (\<lambda>x. x \<noteq> CHR '':'') url1;
          (scheme, url2) =
            (if CHR '':'' \<in> set url1 \<and> before_colon \<noteq> []
                \<and> (is_lower (hd url1) \<or> is_upper (hd url1))
                \<and> list_all scheme_chars before_colon
             then (lower before_colon, snd (split1 CHR '':'' url1))
             else ('''', url1));
          (netloc, url3) =
            (if take 2 url2 = ''//'' then splitnetloc (drop 2 url2) else ('''', url2))
      in if (CHR ''['' \<in> set netloc \<and> CHR '']'' \<notin> set netloc)
            \<or> (CHR '']'' \<in> set netloc \<and> CHR ''['' \<notin> set netloc)
         then Inl ValueError
         else if CHR ''['' \<in> set netloc \<and> CHR '']'' \<in> set netloc
                 \<and> \<not> check_bracketed_host (bracketed_host netloc)
         then Inl ValueError
         else
           (let (url4, fragment) =
                  (if CHR ''#'' \<in> set url3 then split1 CHR ''#'' url3 else (url3, ''''));
                (url5, query) =
                  (if CHR ''?'' \<in> set url4 then split1 CHR ''?'' url4 else (url4, ''''));
                (url6, params) =
                  (if scheme \<in> set uses_params \<and> CHR '';'' \<in> set url5
                   then splitparams url5 else (url5, ''''))
            in Inr \<lparr>scheme = scheme, netloc = netloc, path = url6, params = params,
                    query = query, fragment = fragment\<rparr>))"

text \<open>\<^verbatim>\<open>ParseResult.geturl()\<close>, that is \<^verbatim>\<open>urlunparse\<close> and \<^verbatim>\<open>urlunsplit\<close>.\<close>

definition geturl :: "parse_result \<Rightarrow> string" where
  "geturl p =
     (let url1 = (if params p \<noteq> [] then path p @ '';'' @ params p else path p);
          url2 = (if netloc p \<noteq> [] \<or> (scheme p \<noteq> [] \<and> scheme p \<in> set uses_netloc)
                     \<or> take 2 url1 = ''//''
                  then ''//'' @ netloc p
                         @ (if url1 \<noteq> [] \<and> take 1 url1 \<noteq> ''/'' then ''/'' @ url1 else url1)
                  else url1);
          url3 = (if scheme p \<noteq> [] then scheme p @ '':'' @ url2 else url2);
          url4 = (if query p \<noteq> [] then url3 @ ''?'' @ query p else url3)
      in if fragment p \<noteq> [] then url4 @ ''#'' @ fragment p else url4)"

section \<open>\<^verbatim>\<open>get_external_links\<close>\<close>

text \<open>
  \<^verbatim>\<open>BeautifulSoup(html_content, "html.parser")\<close>. The constructor raises \<^verbatim>\<open>TypeError\<close>
  when it is given \<^verbatim>\<open>None\<close>.
\<close>

fun BeautifulSoup :: "markup option \<Rightarrow> exc + soup" where
  "BeautifulSoup None = Inl TypeError"
| "BeautifulSoup (Some (Malformed e)) = Inl e"
| "BeautifulSoup (Some (Document d)) = Inr d"

text \<open>
  The \<^verbatim>\<open>for link in all_links\<close> loop. The list \<open>external_links\<close> is created before the
  \<^verbatim>\<open>try\<close> block and returned after it, so when an exception leaves the loop the
  function still has what was appended before: the loop gives back the list and the
  exception, if there was one.
\<close>

fun links_loop ::
  "string \<Rightarrow> string set \<Rightarrow> string option list \<Rightarrow> string list \<Rightarrow> string list \<times> exc option"
where
  "links_loop url search_result_domains [] external_links = (external_links, None)"
| "links_loop url search_result_domains (link # rest) external_links =
     (case link of
        None \<Rightarrow> links_loop url search_result_domains rest external_links
      | Some href \<Rightarrow>
          if href \<noteq> [] \<and> sublist ''http'' href then
            (case urlparse href of
               Inl e \<Rightarrow> (external_links, Some e)
             | Inr parsed_href \<Rightarrow>
                 (case urlparse url of
                    Inl e \<Rightarrow> (external_links, Some e)
                  | Inr parsed_website \<Rightarrow>
                      if netloc parsed_href \<noteq> netloc parsed_website
                         \<and> netloc parsed_href \<in> search_result_domains
                      then links_loop url search_result_domains rest
                             (external_links @ [geturl parsed_href])
                      else links_loop url search_result_domains rest external_links))
          else links_loop url search_result_domains rest external_links)"

text \<open>The function gives its trace of effects and the list it returns; it never raises.\<close>

definition get_external_links ::
  "string \<Rightarrow> (nat \<Rightarrow> attempt) \<Rightarrow> string set \<Rightarrow> event list \<times> string list"
where
  "get_external_links url net search_result_domains =
     (case fetch_with_retries_default url net of
        (trace, Inl e) \<Rightarrow> (trace @ [PrintError url e], [])
      | (trace, Inr html_content) \<Rightarrow>
          (case BeautifulSoup html_content of
             Inl e \<Rightarrow> (trace @ [PrintError url e], [])
           | Inr soup \<Rightarrow>
               (case links_loop url search_result_domains (find_all_a soup) [] of
                  (external_links, None) \<Rightarrow> (trace, external_links)
                | (external_links, Some e) \<Rightarrow> (trace @ [PrintError url e], external_links))))"

section \<open>\<^verbatim>\<open>scrape_google_search_results\<close>\<close>

text \<open>The decimal text of an integer, as an f-string formats it.\<close>

fun digits :: "nat \<Rightarrow> string" where
  "digits n =
     (if n < 10 then [char_of (48 + n)] else digits (n div 10) @ [char_of (48 + n mod 10)])"

definition str_int :: "int \<Rightarrow> string" where
  "str_int i = (if i < 0 then ''-'' @ digits (nat (- i)) else digits (nat i))"

definition search_url :: "string \<Rightarrow> int \<Rightarrow> string \<Rightarrow> string" where
  "search_url query_text num_results lang =
     ''https://www.google.com/search?q='' @ query_text @ ''&num='' @ str_int num_results
       @ ''&gl='' @ lang"

text \<open>
  The \<^verbatim>\<open>for result in search_results\<close> loop. \<^verbatim>\<open>result.find("a")["href"]\<close> raises
  \<^verbatim>\<open>TypeError\<close> when the container has no \<^verbatim>\<open>a\<close> element and \<^verbatim>\<open>KeyError\<close> when the
  element has no \<^verbatim>\<open>href\<close>. The link that is kept is the attribute as it stands; the
  text that is searched for the excluded substrings is \<^verbatim>\<open>parsed_link.geturl()\<close>.
\<close>

fun results_loop ::
  "string list \<Rightarrow> string option option list \<Rightarrow> string list \<Rightarrow> event list \<times> (exc + string list)"
where
  "results_loop exclude_websites [] result_urls = ([], Inr result_urls)"
| "results_loop exclude_websites (result # rest) result_urls =
     (case result of
        None \<Rightarrow> ([], Inl TypeError)
      | Some None \<Rightarrow> ([], Inl KeyError)
      | Some (Some link) \<Rightarrow>
          (case urlparse link of
             Inl e \<Rightarrow> ([], Inl e)
           | Inr parsed_link \<Rightarrow>
               if \<not> list_ex (\<lambda>website. sublist website (geturl parsed_link)) exclude_websites
               then results_loop exclude_websites rest (result_urls @ [link])
               else (case results_loop exclude_websites rest result_urls of
                       (trace, r) \<Rightarrow> (PrintExcluded (geturl parsed_link) # trace, r))))"

text \<open>
  The function gives its trace of effects and the list it returns. Whatever is raised in
  the \<^verbatim>\<open>try\<close> block is shown to the user with \<^verbatim>\<open>st.error\<close> and the empty list is
  returned.
\<close>

definition scrape_google_search_results ::
  "string \<Rightarrow> int \<Rightarrow> string \<Rightarrow> string list \<Rightarrow> (nat \<Rightarrow> attempt) \<Rightarrow> event list \<times> string list"
where
  "scrape_google_search_results query_text num_results lang exclude_websites net =
     (case fetch_with_retries_default (search_url query_text num_results lang) net of
        (trace, Inl e) \<Rightarrow> (trace @ [StError e], [])
      | (trace, Inr html_content) \<Rightarrow>
          (case BeautifulSoup html_content of
             Inl e \<Rightarrow> (trace @ [StError e], [])
           | Inr soup \<Rightarrow>
               (case results_loop exclude_websites (find_all_div_tF2Cxc soup) [] of
                  (trace', Inl e) \<Rightarrow> (trace @ trace' @ [StError e], [])
                | (trace', Inr result_urls) \<Rightarrow> (trace @ trace', result_urls))))"

section \<open>\<^verbatim>\<open>process_search_results\<close>\<close>

text \<open>
  The set comprehension \<^verbatim>\<open>{urlparse(url).netloc for url in urls}\<close>, which raises what
  \<^verbatim>\<open>urlparse\<close> raises.
\<close>

fun netlocs :: "string list \<Rightarrow> exc + string list" where
  "netlocs [] = Inr []"
| "netlocs (url # urls) =
     (case urlparse url of
        Inl e \<Rightarrow> Inl e
      | Inr parsed \<Rightarrow> (case netlocs urls of Inl e \<Rightarrow> Inl e | Inr ds \<Rightarrow> Inr (netloc parsed # ds)))"

definition search_result_domains_of :: "string list \<Rightarrow> exc + string set" where
  "search_result_domains_of urls = map_sum id set (netlocs urls)"

text \<open>
  The coroutines \<^verbatim>\<open>process_url(url)\<close> run interleaved on the event loop. Each of them is
  waiting at \<^verbatim>\<open>async with semaphore\<close>, or is inside the block (it holds the semaphore and
  its fetch is in flight), or has returned its list of links. The state of the crawl is
  the counter of \<^verbatim>\<open>asyncio.Semaphore\<close> and the state of every coroutine, in the order
  of \<open>tasks\<close>, which is the order of \<open>urls\<close>.
\<close>

datatype task = Waiting | Running | Done "string list"

record crawl =
  semaphore :: nat
  tasks :: "task list"

text \<open>
  The event loop takes one step at a time: a waiting coroutine acquires the semaphore,
  which needs a counter above zero and takes one from it, or a running coroutine leaves
  the block with its result, which gives one back. Which step comes next depends on the
  timing of the network; it is an input, as the answers of the network are.
\<close>

datatype action = Acquire nat | Release nat

fun exec :: "(nat \<Rightarrow> string list) \<Rightarrow> action \<Rightarrow> crawl \<Rightarrow> crawl option" where
  "exec result (Acquire i) s =
     (if i < length (tasks s) \<and> tasks s ! i = Waiting \<and> 0 < semaphore s
      then Some (s\<lparr>semaphore := semaphore s - 1, tasks := (tasks s)[i := Running]\<rparr>)
      else None)"
| "exec result (Release i) s =
     (if i < length (tasks s) \<and> tasks s ! i = Running
      then Some (s\<lparr>semaphore := semaphore s + 1, tasks := (tasks s)[i := Done (result i)]\<rparr>)
      else None)"

fun run :: "(nat \<Rightarrow> string list) \<Rightarrow> action list \<Rightarrow> crawl \<Rightarrow> crawl option" where
  "run result [] s = Some s"
| "run result (a # schedule) s =
     (case exec result a s of None \<Rightarrow> None | Some s' \<Rightarrow> run result schedule s')"

definition in_flight :: "crawl \<Rightarrow> nat" where
  "in_flight s = length (filter (\<lambda>t. t = Running) (tasks s))"

fun is_Done :: "task \<Rightarrow> bool" where
  "is_Done (Done links) = True"
| "is_Done t = False"

definition all_done :: "crawl \<Rightarrow> bool" where
  "all_done s = list_all is_Done (tasks s)"

text \<open>\<^verbatim>\<open>asyncio.gather(*tasks)\<close>: the results in the order of the tasks.\<close>

fun the_result :: "task \<Rightarrow> string list" where
  "the_result (Done links) = links"
| "the_result t = []"

definition gather :: "crawl \<Rightarrow> string list list" where
  "gather s = map the_result (tasks s)"

text \<open>
  What the coroutine of the \<open>i\<close>-th URL returns: \<open>net i\<close> gives the answers of the
  network to the requests of this coroutine.
\<close>

definition process_url ::
  "string list \<Rightarrow> (nat \<Rightarrow> nat \<Rightarrow> attempt) \<Rightarrow> string set \<Rightarrow> nat \<Rightarrow> string list"
where
  "process_url urls net search_result_domains i =
     snd (get_external_links (urls ! i) (net i) search_result_domains)"

text \<open>
  At the start the semaphore holds \<open>concurrency_limit\<close> and every coroutine is waiting.
\<close>

definition initial :: "string list \<Rightarrow> int \<Rightarrow> crawl" where
  "initial urls concurrency_limit =
     \<lparr>semaphore = nat concurrency_limit, tasks = map (\<lambda>url. Waiting) urls\<rparr>"

text \<open>
  The function under a given schedule. \<^verbatim>\<open>asyncio.Semaphore\<close> raises \<^verbatim>\<open>ValueError\<close>
  for a negative value. The outcome is \<open>None\<close> when the schedule is not one the event loop
  can take, or when at its end some coroutine has not returned, so that
  \<^verbatim>\<open>gather\<close> has not returned either.
\<close>

definition process_search_results ::
  "string list \<Rightarrow> (nat \<Rightarrow> nat \<Rightarrow> attempt) \<Rightarrow> int \<Rightarrow> action list \<Rightarrow> (exc + string list list) option"
where
  "process_search_results urls net concurrency_limit schedule =
     (if concurrency_limit < 0 then Some (Inl ValueError)
      else case search_result_domains_of urls of
        Inl e \<Rightarrow> Some (Inl e)
      | Inr search_result_domains \<Rightarrow>
          (case run (process_url urls net search_result_domains) schedule
                  (initial urls concurrency_limit) of
             None \<Rightarrow> None
           | Some s \<Rightarrow> if all_done s then Some (Inr (gather s)) else None))"

text \<open>The default of the signature: \<^verbatim>\<open>concurrency_limit=5\<close>.\<close>

definition process_search_results_default ::
  "string list \<Rightarrow> (nat \<Rightarrow> nat \<Rightarrow> attempt) \<Rightarrow> action list \<Rightarrow> (exc + string list list) option"
where
  "process_search_results_default urls net schedule = process_search_results urls net 5 schedule"

text \<open>
  The networks of a batch, one scripted network for each coroutine.
\<close>

definition per_task :: "(nat \<Rightarrow> attempt) list \<Rightarrow> nat \<Rightarrow> nat \<Rightarrow> attempt" where
  "per_task nets i = (if i < length nets then nets ! i else stub [])"

section \<open>Characterisations used in the properties\<close>

text \<open>
  One pass of the body of the link loop of \<^verbatim>\<open>get_external_links\<close>, read off the code:
  the exception it raises, if any; whether it appends to \<open>external_links\<close>; and what it
  appends.
\<close>

definition raised :: "string \<Rightarrow> string option \<Rightarrow> exc option" where
  "raised url link =
     (case link of
        None \<Rightarrow> None
      | Some href \<Rightarrow>
          if href \<noteq> [] \<and> sublist ''http'' href then
            (case urlparse href of
               Inl e \<Rightarrow> Some e
             | Inr parsed_href \<Rightarrow> (case urlparse url of Inl e \<Rightarrow> Some e | Inr parsed_website \<Rightarrow> None))
          else None)"

definition kept :: "string \<Rightarrow> string set \<Rightarrow> string option \<Rightarrow> bool" where
  "kept url search_result_domains link =
     (case link of
        None \<Rightarrow> False
      | Some href \<Rightarrow>
          href \<noteq> [] \<and> sublist ''http'' href \<and>
          (case urlparse href of
             Inl e \<Rightarrow> False
           | Inr parsed_href \<Rightarrow>
               (case urlparse url of
                  Inl e \<Rightarrow> False
                | Inr parsed_website \<Rightarrow>
                    netloc parsed_href \<noteq> netloc parsed_website
                    \<and> netloc parsed_href \<in> search_result_domains)))"

definition link_url :: "string option \<Rightarrow> string" where
  "link_url link =
     (case link of
        None \<Rightarrow> []
      | Some href \<Rightarrow> (case urlparse href of Inl e \<Rightarrow> [] | Inr parsed_href \<Rightarrow> geturl parsed_href))"

fun first_raised :: "string \<Rightarrow> string option list \<Rightarrow> exc option" where
  "first_raised url [] = None"
| "first_raised url (link # rest) =
     (case raised url link of None \<Rightarrow> first_raised url rest | Some e \<Rightarrow> Some e)"

text \<open>
  The condition on a hyperlink in the words of the specification: the attribute value is
  a syntactically complete URL containing a scheme, and the domain of a URL.
\<close>

definition spec_complete_url :: "string \<Rightarrow> bool" where
  "spec_complete_url href =
     (case urlparse href of Inl e \<Rightarrow> False | Inr p \<Rightarrow> scheme p \<noteq> [] \<and> netloc p \<noteq> [])"

definition spec_domain :: "string \<Rightarrow> string" where
  "spec_domain url = (case urlparse url of Inl e \<Rightarrow> [] | Inr p \<Rightarrow> netloc p)"

text \<open>
  One pass of the body of the result loop of \<^verbatim>\<open>scrape_google_search_results\<close>: the
  exception that reading the link raises, if any; the link; and the text in which the
  excluded substrings are searched.
\<close>

definition raised_result :: "string option option \<Rightarrow> exc option" where
  "raised_result result =
     (case result of
        None \<Rightarrow> Some TypeError
      | Some None \<Rightarrow> Some KeyError
      | Some (Some link) \<Rightarrow> (case urlparse link of Inl e \<Rightarrow> Some e | Inr parsed_link \<Rightarrow> None))"

definition result_link :: "string option option \<Rightarrow> string" where
  "result_link result = (case result of Some (Some link) \<Rightarrow> link | _ \<Rightarrow> [])"

definition url_text :: "string \<Rightarrow> string" where
  "url_text link = (case urlparse link of Inl e \<Rightarrow> [] | Inr parsed_link \<Rightarrow> geturl parsed_link)"

text \<open>
  The work that is left in a state of the crawl (two steps for a waiting coroutine, one
  for a running one), and the invariant that a coroutine that is done holds its own result.
\<close>

fun weight :: "task \<Rightarrow> nat" where
  "weight Waiting = 2"
| "weight Running = 1"
| "weight (Done links) = 0"

definition pending :: "crawl \<Rightarrow> nat" where
  "pending s = sum_list (map weight (tasks s))"

definition results_ok :: "(nat \<Rightarrow> string list) \<Rightarrow> crawl \<Rightarrow> bool" where
  "results_ok result s = (\<forall>i < length (tasks s). \<forall>links. tasks s ! i = Done links \<longrightarrow> links = result i)"

section \<open>Properties of \<^verbatim>\<open>fetch_with_retries\<close>\<close>

lemma fetch_loop_failures:
  assumes "\<forall>i. k \<le> i \<and> i < k + n \<longrightarrow> (\<exists>e. get_text (net i) = Inl e \<and> is_ClientError e)"
    and "int (k + n) < retries"
  shows "fetch_loop url net retries bf [k..<nat retries] =
    (concat (map (\<lambda>i. [Get url, Sleep (bf ^ i)]) [k..<k + n])
       @ fst (fetch_loop url net retries bf [k + n..<nat retries]),
     snd (fetch_loop url net retries bf [k + n..<nat retries]))"
  using assms
proof (induction n arbitrary: k)
  case 0
  then show ?case by simp
next
  case (Suc n)
  from Suc.prems obtain e where e: "get_text (net k) = Inl e" "is_ClientError e"
    by (auto dest: spec [of _ k])
  have lt: "k < nat retries" and lt': "int k < retries - 1"
    using Suc.prems(2) by auto
  have IH: "fetch_loop url net retries bf [Suc k..<nat retries] =
    (concat (map (\<lambda>i. [Get url, Sleep (bf ^ i)]) [Suc k..<Suc k + n])
       @ fst (fetch_loop url net retries bf [Suc k + n..<nat retries]),
     snd (fetch_loop url net retries bf [Suc k + n..<nat retries]))"
    using Suc.prems by (intro Suc.IH) auto
  have "[k..<nat retries] = k # [Suc k..<nat retries]"
    using lt by (simp add: upt_conv_Cons)
  moreover have "[k..<k + Suc n] = k # [Suc k..<Suc k + n]"
    by (simp add: upt_conv_Cons)
  ultimately show ?case
    using e lt' IH by simp
qed

lemma fetch_loop_last:
  assumes "int k < retries"
  shows "fetch_loop url net retries bf [k..<nat retries] =
     (case get_text (net k) of
        Inr text \<Rightarrow> ([Get url], Inr (Some text))
      | Inl e \<Rightarrow>
          if is_ClientError e \<and> int k < retries - 1 then
            (Get url # Sleep (bf ^ k) # fst (fetch_loop url net retries bf [Suc k..<nat retries]),
             snd (fetch_loop url net retries bf [Suc k..<nat retries]))
          else ([Get url], Inl e))"
proof -
  have "[k..<nat retries] = k # [Suc k..<nat retries]"
    using assms by (simp add: upt_conv_Cons)
  then show ?thesis
    by (simp split: sum.splits prod.splits)
qed

lemma attempts_append: "attempts (xs @ ys) = attempts xs + attempts ys"
  by (induction xs rule: attempts.induct) simp_all








lemma fetch_loop_attempts_pos:
  "xs \<noteq> [] \<Longrightarrow> 0 < attempts (fst (fetch_loop url net retries bf xs))"
  by (cases xs) (simp_all split: sum.splits prod.splits)

text \<open>
  Claim C6, as the code has it. The errors that are retried are those of class
  \<^verbatim>\<open>aiohttp.ClientError\<close>, whatever their cause, and only while attempts remain: when
  attempt \<open>k\<close> raises such an error and is not the last, at least one more request is
  sent. Any other exception, and a client error at the last attempt, is raised at once,
  with no further request and no sleep after it; at the first attempt this is after a
  single request.
\<close>

theorem fetch_with_retries_retries_ClientError:
  assumes "int k < retries"
    and "\<forall>i < k. \<exists>e. get_text (net i) = Inl e \<and> is_ClientError e"
    and "get_text (net k) = Inl e"
  shows "if is_ClientError e \<and> int k < retries - 1
         then k + 2 \<le> attempts (fst (fetch_with_retries url net retries bf))
         else fetch_with_retries url net retries bf = (backoff_trace url bf k, Inl e)"
proof -
  have pre: "fetch_loop url net retries bf [0..<nat retries] =
    (concat (map (\<lambda>i. [Get url, Sleep (bf ^ i)]) [0..<0 + k])
       @ fst (fetch_loop url net retries bf [0 + k..<nat retries]),
     snd (fetch_loop url net retries bf [0 + k..<nat retries]))"
    using assms by (intro fetch_loop_failures) auto
  show ?thesis
  proof (cases "is_ClientError e \<and> int k < retries - 1")
    case True
    then have "[Suc k..<nat retries] \<noteq> []" by auto
    then have "0 < attempts (fst (fetch_loop url net retries bf [Suc k..<nat retries]))"
      by (rule fetch_loop_attempts_pos)
    moreover have "attempts (concat (map (\<lambda>i. [Get url, Sleep (bf ^ i)]) [0..<k])) = k"
      by (induction k) (simp_all add: attempts_append)
    ultimately show ?thesis
      using True assms(1,3) pre
      by (simp add: fetch_with_retries_def range_py_def fetch_loop_last [of k] attempts_append)
  next
    case False
    then show ?thesis
      using assms(1,3) pre
      by (auto simp: fetch_with_retries_def range_py_def fetch_loop_last [of k] backoff_trace_def)
  qed
qed


text \<open>
  Claim C10. With \<open>retries \<le> 0\<close> the loop has no iteration: the function sends no
  request, does not sleep and returns \<^verbatim>\<open>None\<close>, which is neither a text nor a raised
  error.
\<close>

theorem fetch_with_retries_no_attempt: "retries \<le> 0 \<Longrightarrow> fetch_with_retries url net retries bf = ([], Inr None)"
  by (simp add: fetch_with_retries_def range_py_def)

text \<open>The call with \<open>retries = 0\<close>.\<close>

theorem fetch_with_retries_no_attempt_witness:
  "(0::int) \<le> 0 \<and> fetch_with_retries ''https://a.com/x'' (stub []) 0 2 = ([], Inr None)"
  using fetch_with_retries_no_attempt [of 0 "''https://a.com/x''" "stub []" 2] by simp


text \<open>
  A response with status 404 is no transient error in the words of the specification, but
  \<^verbatim>\<open>raise_for_status()\<close> turns it into a \<^verbatim>\<open>ClientResponseError\<close>, and the request is
  sent again after the backoff sleep.
\<close>

theorem fetch_with_retries_retries_status_404:
  "\<not> spec_transient (ClientResponseError 404) \<and>
   fetch_with_retries ''https://a.com/x''
      (stub [Response 404 (Inr (Malformed ValueError)), Response 200 (Inr (Malformed ValueError))]) 3 2
     = ([Get ''https://a.com/x'', Sleep 1, Get ''https://a.com/x''], Inr (Some (Malformed ValueError)))"
  by (simp add: fetch_with_retries_def range_py_def stub_def upt_conv_Cons)

text \<open>
  A body that cannot be decoded is raised after one request; a status 404 is retried.
\<close>

theorem fetch_with_retries_retries_ClientError_witness:
  "fetch_with_retries ''https://a.com/x'' (stub [Response 200 (Inl UnicodeDecodeError)]) 3 2
     = ([Get ''https://a.com/x''], Inl UnicodeDecodeError)
   \<and> 2 \<le> attempts (fst (fetch_with_retries ''https://a.com/x''
              (stub [Response 404 (Inr (Malformed ValueError))]) 3 2))"
proof -
  have r: "int 0 < 3" by simp
  have p: "\<forall>i<(0::nat). \<exists>e. get_text (stub [Response 200 (Inl UnicodeDecodeError)] i) = Inl e \<and> is_ClientError e"
    by simp
  have g: "get_text (stub [Response 200 (Inl UnicodeDecodeError)] 0) = Inl UnicodeDecodeError"
    by (simp add: stub_def)
  have p': "\<forall>i<(0::nat). \<exists>e. get_text (stub [Response 404 (Inr (Malformed ValueError))] i) = Inl e \<and> is_ClientError e"
    by simp
  have g': "get_text (stub [Response 404 (Inr (Malformed ValueError))] 0) = Inl (ClientResponseError 404)"
    by (simp add: stub_def)
  show ?thesis
    using fetch_with_retries_retries_ClientError [OF r p g, of "''https://a.com/x''" 2] fetch_with_retries_retries_ClientError [OF r p' g', of "''https://a.com/x''" 2]
    by (simp add: backoff_trace_def)
qed

section \<open>Lemmas on the link loop\<close>

text \<open>
  The check of the host between brackets: a name and an IPv4 address are refused, an
  IPv6 address is accepted, with a port after it or an IPv4 suffix in it.
\<close>

lemma urlparse_bracketed_hosts:
  "urlparse ''http://[bad]/x'' = Inl ValueError
   \<and> urlparse ''http://[1.2.3.4]/p'' = Inl ValueError
   \<and> urlparse ''http://[bad'' = Inl ValueError
   \<and> map_sum id netloc (urlparse ''http://[2001:db8::1]:80/x'') = Inr ''[2001:db8::1]:80''
   \<and> map_sum id netloc (urlparse ''http://[::ffff:1.2.3.4]/x'') = Inr ''[::ffff:1.2.3.4]''"
  by code_simp

lemma bracketed_name_raises:
  "raised ''https://a.com/x'' (Some ''http://[bad]/x'') = Some ValueError
   \<and> raised_result (Some (Some ''http://[bad]/x'')) = Some ValueError"
  by code_simp

lemma links_loop_step:
  "links_loop url D (link # rest) acc =
     (case raised url link of
        Some e \<Rightarrow> (acc, Some e)
      | None \<Rightarrow> links_loop url D rest (if kept url D link then acc @ [link_url link] else acc))"
  by (cases link; cases "urlparse url"; cases "urlparse (the link)")
     (simp_all add: raised_def kept_def link_url_def)

lemma links_loop_eq:
  "links_loop url D links acc =
     (acc @ map link_url (filter (kept url D) (takeWhile (\<lambda>l. raised url l = None) links)),
      first_raised url links)"
proof (induction links arbitrary: acc)
  case Nil
  show ?case by simp
next
  case (Cons link rest)
  show ?case
    unfolding links_loop_step [of url D link rest acc]
    by (cases "raised url link") (simp_all add: Cons.IH)
qed

lemma get_external_links_document:
  assumes "snd (fetch_with_retries_default url net) = Inr (Some (Document d))"
  shows "snd (get_external_links url net D)
     = map link_url (filter (kept url D) (takeWhile (\<lambda>l. raised url l = None) (find_all_a d)))"
proof -
  obtain trace where "fetch_with_retries_default url net = (trace, Inr (Some (Document d)))"
    using assms by (cases "fetch_with_retries_default url net") simp
  then show ?thesis
    by (simp add: get_external_links_def links_loop_eq split: option.splits)
qed

lemma get_external_links_failed:
  assumes "snd (fetch_with_retries_default url net) = Inl e"
  shows "get_external_links url net D = (fst (fetch_with_retries_default url net) @ [PrintError url e], [])"
proof -
  obtain trace where "fetch_with_retries_default url net = (trace, Inl e)"
    using assms by (cases "fetch_with_retries_default url net") simp
  then show ?thesis
    by (simp add: get_external_links_def)
qed

section \<open>Lemmas on the event loop\<close>

lemma length_filter_update:
  "i < length xs \<Longrightarrow>
     length (filter P (xs[i := y])) + (if P (xs ! i) then 1 else 0)
       = length (filter P xs) + (if P y then 1 else 0)"
proof (induction xs arbitrary: i)
  case Nil
  then show ?case by simp
next
  case (Cons x xs)
  show ?case
  proof (cases i)
    case 0
    then show ?thesis by simp
  next
    case (Suc j)
    with Cons.prems have "j < length xs" by simp
    from Cons.IH [OF this] Suc show ?thesis by simp
  qed
qed

lemma sum_list_weight_update:
  "i < length xs \<Longrightarrow>
     sum_list (map weight (xs[i := y])) + weight (xs ! i) = sum_list (map weight xs) + weight y"
proof (induction xs arbitrary: i)
  case Nil
  then show ?case by simp
next
  case (Cons x xs)
  show ?case
  proof (cases i)
    case 0
    then show ?thesis by simp
  next
    case (Suc j)
    with Cons.prems have "j < length xs" by simp
    from Cons.IH [OF this] Suc show ?thesis by simp
  qed
qed

lemma exec_length:
  "exec result a s = Some s' \<Longrightarrow> length (tasks s') = length (tasks s)"
  by (cases a) (auto split: if_splits)

lemma exec_semaphore:
  assumes "exec result a s = Some s'"
  shows "semaphore s' + in_flight s' = semaphore s + in_flight s"
proof (cases a)
  case (Acquire i)
  with assms have i: "i < length (tasks s)" "tasks s ! i = Waiting" "0 < semaphore s"
    and s': "s' = s\<lparr>semaphore := semaphore s - 1, tasks := (tasks s)[i := Running]\<rparr>"
    by (auto split: if_splits)
  from length_filter_update [OF i(1), of "\<lambda>t. t = Running" Running] i(2)
  have "in_flight s' = in_flight s + 1"
    by (simp add: in_flight_def s')
  with i(3) show ?thesis by (simp add: s')
next
  case (Release i)
  with assms have i: "i < length (tasks s)" "tasks s ! i = Running"
    and s': "s' = s\<lparr>semaphore := semaphore s + 1, tasks := (tasks s)[i := Done (result i)]\<rparr>"
    by (auto split: if_splits)
  from length_filter_update [OF i(1), of "\<lambda>t. t = Running" "Done (result i)"] i(2)
  have "in_flight s' + 1 = in_flight s"
    by (simp add: in_flight_def s')
  then show ?thesis by (simp add: s')
qed

lemma exec_pending:
  assumes "exec result a s = Some s'"
  shows "Suc (pending s') = pending s"
proof (cases a)
  case (Acquire i)
  with assms have i: "i < length (tasks s)" "tasks s ! i = Waiting"
    and s': "s' = s\<lparr>semaphore := semaphore s - 1, tasks := (tasks s)[i := Running]\<rparr>"
    by (auto split: if_splits)
  from sum_list_weight_update [OF i(1), of Running] i(2) show ?thesis
    by (simp add: pending_def s')
next
  case (Release i)
  with assms have i: "i < length (tasks s)" "tasks s ! i = Running"
    and s': "s' = s\<lparr>semaphore := semaphore s + 1, tasks := (tasks s)[i := Done (result i)]\<rparr>"
    by (auto split: if_splits)
  from sum_list_weight_update [OF i(1), of "Done (result i)"] i(2) show ?thesis
    by (simp add: pending_def s')
qed

lemma exec_results_ok:
  assumes "exec result a s = Some s'" and "results_ok result s"
  shows "results_ok result s'"
proof (cases a)
  case (Acquire i)
  with assms(1) have i: "i < length (tasks s)"
    and s': "s' = s\<lparr>semaphore := semaphore s - 1, tasks := (tasks s)[i := Running]\<rparr>"
    by (auto split: if_splits)
  show ?thesis
    unfolding results_ok_def
  proof (intro allI impI)
    fix j links assume j: "j < length (tasks s')" "tasks s' ! j = Done links"
    then have "j \<noteq> i" using i by (auto simp: s')
    with j have "j < length (tasks s)" "tasks s ! j = Done links" by (simp_all add: s')
    with assms(2) show "links = result j" by (simp add: results_ok_def)
  qed
next
  case (Release i)
  with assms(1) have i: "i < length (tasks s)"
    and s': "s' = s\<lparr>semaphore := semaphore s + 1, tasks := (tasks s)[i := Done (result i)]\<rparr>"
    by (auto split: if_splits)
  show ?thesis
    unfolding results_ok_def
  proof (intro allI impI)
    fix j links assume j: "j < length (tasks s')" "tasks s' ! j = Done links"
    show "links = result j"
    proof (cases "j = i")
      case True
      with j i show ?thesis by (simp add: s')
    next
      case False
      with j have "j < length (tasks s)" "tasks s ! j = Done links" by (simp_all add: s')
      with assms(2) show ?thesis by (simp add: results_ok_def)
    qed
  qed
qed

lemma run_Cons_Some:
  assumes "run result (a # schedule) s = Some s'"
  obtains s1 where "exec result a s = Some s1" and "run result schedule s1 = Some s'"
  using assms by (auto split: option.splits)

lemma run_length:
  "run result schedule s = Some s' \<Longrightarrow> length (tasks s') = length (tasks s)"
proof (induction schedule arbitrary: s)
  case Nil
  then show ?case by simp
next
  case (Cons a schedule)
  from Cons.prems obtain s1 where e: "exec result a s = Some s1"
    and r: "run result schedule s1 = Some s'" by (rule run_Cons_Some)
  show ?case using Cons.IH [OF r] exec_length [OF e] by simp
qed

lemma run_semaphore:
  "run result schedule s = Some s' \<Longrightarrow> semaphore s' + in_flight s' = semaphore s + in_flight s"
proof (induction schedule arbitrary: s)
  case Nil
  then show ?case by simp
next
  case (Cons a schedule)
  from Cons.prems obtain s1 where e: "exec result a s = Some s1"
    and r: "run result schedule s1 = Some s'" by (rule run_Cons_Some)
  show ?case using Cons.IH [OF r] exec_semaphore [OF e] by simp
qed

lemma run_pending:
  "run result schedule s = Some s' \<Longrightarrow> pending s' + length schedule = pending s"
proof (induction schedule arbitrary: s)
  case Nil
  then show ?case by simp
next
  case (Cons a schedule)
  from Cons.prems obtain s1 where e: "exec result a s = Some s1"
    and r: "run result schedule s1 = Some s'" by (rule run_Cons_Some)
  show ?case using Cons.IH [OF r] exec_pending [OF e] by simp
qed

lemma run_results_ok:
  "run result schedule s = Some s' \<Longrightarrow> results_ok result s \<Longrightarrow> results_ok result s'"
proof (induction schedule arbitrary: s)
  case Nil
  then show ?case by simp
next
  case (Cons a schedule)
  from Cons.prems(1) obtain s1 where e: "exec result a s = Some s1"
    and r: "run result schedule s1 = Some s'" by (rule run_Cons_Some)
  show ?case using Cons.IH [OF r] exec_results_ok [OF e Cons.prems(2)] by simp
qed

lemma in_flight_initial: "in_flight (initial urls k) = 0"
  by (simp add: in_flight_def initial_def filter_empty_conv)

lemma results_ok_initial: "results_ok result (initial urls k)"
  by (simp add: results_ok_def initial_def)

lemma pending_initial: "pending (initial urls k) = 2 * length urls"
  by (induction urls) (simp_all add: pending_def initial_def)

lemma gather_all_done:
  assumes "all_done s" and "results_ok result s"
  shows "gather s = map result [0..<length (tasks s)]"
proof (rule nth_equalityI)
  show "length (gather s) = length (map result [0..<length (tasks s)])"
    by (simp add: gather_def)
next
  fix i assume "i < length (gather s)"
  then have i: "i < length (tasks s)" by (simp add: gather_def)
  with assms(1) have "is_Done (tasks s ! i)"
    by (simp add: all_done_def list_all_length)
  then obtain links where d: "tasks s ! i = Done links"
    by (cases "tasks s ! i") simp_all
  with assms(2) i have "links = result i" by (simp add: results_ok_def)
  with d i show "gather s ! i = map result [0..<length (tasks s)] ! i"
    by (simp add: gather_def)
qed

lemma not_all_done_pending:
  assumes "\<not> all_done s"
  shows "\<exists>i < length (tasks s). tasks s ! i = Waiting \<or> tasks s ! i = Running"
proof -
  from assms obtain i where i: "i < length (tasks s)" "\<not> is_Done (tasks s ! i)"
    by (auto simp: all_done_def list_all_length)
  then have "tasks s ! i = Waiting \<or> tasks s ! i = Running"
    by (cases "tasks s ! i") simp_all
  with i show ?thesis by blast
qed

lemma progress:
  assumes "\<not> all_done s" and "0 < semaphore s + in_flight s"
  shows "\<exists>a s'. exec result a s = Some s'"
proof (cases "in_flight s = 0")
  case True
  with assms(2) have sem: "0 < semaphore s" by simp
  from True have nr: "\<forall>t \<in> set (tasks s). t \<noteq> Running"
    by (simp add: in_flight_def filter_empty_conv)
  from not_all_done_pending [OF assms(1)] obtain i
    where i: "i < length (tasks s)" "tasks s ! i = Waiting \<or> tasks s ! i = Running" by blast
  with nr have "tasks s ! i = Waiting" by (metis nth_mem)
  with i sem have "exec result (Acquire i) s \<noteq> None" by simp
  then show ?thesis by blast
next
  case False
  then have "\<exists>t \<in> set (tasks s). t = Running"
    by (simp add: in_flight_def filter_empty_conv)
  then obtain i where "i < length (tasks s)" "tasks s ! i = Running"
    by (metis in_set_conv_nth)
  then have "exec result (Release i) s \<noteq> None" by simp
  then show ?thesis by blast
qed

lemma completes:
  assumes "0 < semaphore s + in_flight s"
  shows "\<exists>schedule s'. run result schedule s = Some s' \<and> all_done s'"
  using assms
proof (induction "pending s" arbitrary: s rule: less_induct)
  case less
  show ?case
  proof (cases "all_done s")
    case True
    then have "run result [] s = Some s \<and> all_done s" by simp
    then show ?thesis by blast
  next
    case False
    from progress [OF False less.prems] obtain a s1 where e: "exec result a s = Some s1"
      by blast
    have lt: "pending s1 < pending s" using exec_pending [OF e] by simp
    have pos: "0 < semaphore s1 + in_flight s1"
      using exec_semaphore [OF e] less.prems by simp
    from less.hyps [OF lt pos] obtain schedule s'
      where "run result schedule s1 = Some s'" "all_done s'"
      by (elim exE conjE)
    with e have "run result (a # schedule) s = Some s' \<and> all_done s'" by simp
    then show ?thesis by blast
  qed
qed

section \<open>Properties of \<^verbatim>\<open>get_external_links\<close>\<close>

lemma kept_iff:
  "kept url D link \<longleftrightarrow>
     (\<exists>href parsed_href parsed_website. link = Some href \<and> href \<noteq> [] \<and> sublist ''http'' href
        \<and> urlparse href = Inr parsed_href \<and> urlparse url = Inr parsed_website
        \<and> netloc parsed_href \<noteq> netloc parsed_website \<and> netloc parsed_href \<in> D)"
  by (cases link; cases "urlparse url"; cases "urlparse (the link)") (auto simp: kept_def)

lemma get_external_links_complete:
  assumes "snd (fetch_with_retries_default url net) = Inr (Some (Document d))"
    and "\<forall>link \<in> set (find_all_a d). raised url link = None"
  shows "snd (get_external_links url net D) = map link_url (filter (kept url D) (find_all_a d))"
proof -
  have "takeWhile (\<lambda>l. raised url l = None) (find_all_a d) = find_all_a d"
    using assms(2) by (simp add: takeWhile_eq_all_conv)
  with get_external_links_document [OF assms(1), of D] show ?thesis by simp
qed



text \<open>
  Claim C2, as the code has it. When the page is fetched and parsed and no link of it makes
  \<^verbatim>\<open>urlparse\<close> raise, a URL is in the returned list if and only if the page has an
  anchor whose \<^verbatim>\<open>href\<close> (a) is not empty and contains the text \<^verbatim>\<open>http\<close>, (b) has a
  network location that differs from that of the page URL, and (c) has a network location
  in the set of known result domains; the URL returned is the parsed attribute put together
  again by \<^verbatim>\<open>geturl()\<close>. In particular, the page at \<^verbatim>\<open>https://a.com/x\<close> that links to
  \<^verbatim>\<open>https://a.com/y\<close> and \<^verbatim>\<open>https://b.com/z\<close>, with the known domains \<^verbatim>\<open>a.com\<close> and
  \<^verbatim>\<open>b.com\<close>, gives exactly \<^verbatim>\<open>https://b.com/z\<close>.
\<close>

theorem get_external_links_keeps:
  assumes "snd (fetch_with_retries_default url net) = Inr (Some (Document d))"
    and "\<forall>link \<in> set (find_all_a d). raised url link = None"
  shows "(u \<in> set (snd (get_external_links url net D)) \<longleftrightarrow>
      (\<exists>href parsed_href parsed_website.
          Some href \<in> set (find_all_a d) \<and> href \<noteq> [] \<and> sublist ''http'' href
        \<and> urlparse href = Inr parsed_href \<and> urlparse url = Inr parsed_website
        \<and> netloc parsed_href \<noteq> netloc parsed_website \<and> netloc parsed_href \<in> D
        \<and> u = geturl parsed_href))
    \<and> snd (get_external_links ''https://a.com/x''
         (stub [Response 200 (Inr (Document
            \<lparr>find_all_a = [Some ''https://a.com/y'', Some ''https://b.com/z''],
             find_all_div_tF2Cxc = []\<rparr>))])
         {''a.com'', ''b.com''}) = [''https://b.com/z'']"
proof
  have "u \<in> set (snd (get_external_links url net D))
      \<longleftrightarrow> (\<exists>link \<in> set (find_all_a d). kept url D link \<and> u = link_url link)"
    unfolding get_external_links_complete [OF assms] by auto
  also have "\<dots> \<longleftrightarrow> (\<exists>href parsed_href parsed_website.
          Some href \<in> set (find_all_a d) \<and> href \<noteq> [] \<and> sublist ''http'' href
        \<and> urlparse href = Inr parsed_href \<and> urlparse url = Inr parsed_website
        \<and> netloc parsed_href \<noteq> netloc parsed_website \<and> netloc parsed_href \<in> D
        \<and> u = geturl parsed_href)"
  proof
    assume "\<exists>link \<in> set (find_all_a d). kept url D link \<and> u = link_url link"
    then obtain link where l: "link \<in> set (find_all_a d)" "kept url D link" "u = link_url link"
      by blast
    from l(2) obtain href parsed_href parsed_website
      where h: "link = Some href" "href \<noteq> []" "sublist ''http'' href"
        "urlparse href = Inr parsed_href" "urlparse url = Inr parsed_website"
        "netloc parsed_href \<noteq> netloc parsed_website" "netloc parsed_href \<in> D"
      unfolding kept_iff by blast
    from l(3) h(1,4) have "u = geturl parsed_href" by (simp add: link_url_def)
    with l(1) h show "\<exists>href parsed_href parsed_website.
          Some href \<in> set (find_all_a d) \<and> href \<noteq> [] \<and> sublist ''http'' href
        \<and> urlparse href = Inr parsed_href \<and> urlparse url = Inr parsed_website
        \<and> netloc parsed_href \<noteq> netloc parsed_website \<and> netloc parsed_href \<in> D
        \<and> u = geturl parsed_href" by blast
  next
    assume "\<exists>href parsed_href parsed_website.
          Some href \<in> set (find_all_a d) \<and> href \<noteq> [] \<and> sublist ''http'' href
        \<and> urlparse href = Inr parsed_href \<and> urlparse url = Inr parsed_website
        \<and> netloc parsed_href \<noteq> netloc parsed_website \<and> netloc parsed_href \<in> D
        \<and> u = geturl parsed_href"
    then obtain href parsed_href parsed_website
      where h: "Some href \<in> set (find_all_a d)" "href \<noteq> []" "sublist ''http'' href"
        "urlparse href = Inr parsed_href" "urlparse url = Inr parsed_website"
        "netloc parsed_href \<noteq> netloc parsed_website" "netloc parsed_href \<in> D"
        "u = geturl parsed_href"
      by blast
    have "kept url D (Some href)" unfolding kept_iff using h by blast
    moreover have "u = link_url (Some href)" using h(4,8) by (simp add: link_url_def)
    ultimately show "\<exists>link \<in> set (find_all_a d). kept url D link \<and> u = link_url link"
      using h(1) by blast
  qed
  finally show "u \<in> set (snd (get_external_links url net D)) \<longleftrightarrow>
      (\<exists>href parsed_href parsed_website.
          Some href \<in> set (find_all_a d) \<and> href \<noteq> [] \<and> sublist ''http'' href
        \<and> urlparse href = Inr parsed_href \<and> urlparse url = Inr parsed_website
        \<and> netloc parsed_href \<noteq> netloc parsed_website \<and> netloc parsed_href \<in> D
        \<and> u = geturl parsed_href)" .
next
  show "snd (get_external_links ''https://a.com/x''
         (stub [Response 200 (Inr (Document
            \<lparr>find_all_a = [Some ''https://a.com/y'', Some ''https://b.com/z''],
             find_all_div_tF2Cxc = []\<rparr>))])
         {''a.com'', ''b.com''}) = [''https://b.com/z'']"
    by code_simp
qed


lemma prefix_map_filter_takeWhile:
  "prefix (map f (filter P (takeWhile Q xs))) (map f (filter P xs))"
proof -
  have "map f (filter P xs)
      = map f (filter P (takeWhile Q xs)) @ map f (filter P (dropWhile Q xs))"
    by (metis filter_append map_append takeWhile_dropWhile_id)
  then show ?thesis by (rule prefixI)
qed

lemma get_external_links_trace:
  assumes "snd (fetch_with_retries_default url net) = Inr (Some (Document d))"
  shows "fst (get_external_links url net D)
     = fst (fetch_with_retries_default url net)
       @ (case first_raised url (find_all_a d) of None \<Rightarrow> [] | Some e \<Rightarrow> [PrintError url e])"
proof -
  obtain trace where "fetch_with_retries_default url net = (trace, Inr (Some (Document d)))"
    using assms by (cases "fetch_with_retries_default url net") simp
  then show ?thesis
    by (simp add: get_external_links_def links_loop_eq split: option.splits)
qed

lemma get_external_links_unparsed:
  assumes "snd (fetch_with_retries_default url net) = Inr html_content"
    and "BeautifulSoup html_content = Inl e"
  shows "get_external_links url net D = (fst (fetch_with_retries_default url net) @ [PrintError url e], [])"
proof -
  obtain trace where "fetch_with_retries_default url net = (trace, Inr html_content)"
    using assms(1) by (cases "fetch_with_retries_default url net") simp
  with assms(2) show ?thesis
    by (simp add: get_external_links_def)
qed

lemma process_search_results_returns:
  assumes "search_result_domains_of urls = Inr D"
    and "process_search_results urls net k schedule = Some (Inr r)"
  shows "r = map (process_url urls net D) [0..<length urls]"
proof -
  from assms obtain s
    where r: "run (process_url urls net D) schedule (initial urls k) = Some s"
      and d: "all_done s" and g: "r = gather s"
    by (auto simp: process_search_results_def split: if_splits option.splits)
  have "results_ok (process_url urls net D) s"
    using run_results_ok [OF r results_ok_initial] .
  moreover have "length (tasks s) = length urls"
    using run_length [OF r] by (simp add: initial_def)
  ultimately show ?thesis
    using gather_all_done [OF d] g by simp
qed

lemma run_append:
  "run result (xs @ ys) s = (case run result xs s of None \<Rightarrow> None | Some s' \<Rightarrow> run result ys s')"
  by (induction xs arbitrary: s) (simp_all split: option.splits)

lemma process_search_results_continues:
  assumes "1 \<le> k" and "search_result_domains_of urls = Inr D"
    and "run (process_url urls net D) schedule (initial urls k) = Some s"
  shows "\<exists>rest. process_search_results urls net k (schedule @ rest)
            = Some (Inr (map (process_url urls net D) [0..<length urls]))"
proof -
  let ?result = "process_url urls net D"
  have "0 < semaphore (initial urls k) + in_flight (initial urls k)"
    using assms(1) by (simp add: initial_def)
  then have "0 < semaphore s + in_flight s"
    using run_semaphore [OF assms(3)] by simp
  from completes [OF this, of ?result] obtain rest s'
    where rest: "run ?result rest s = Some s'" "all_done s'" by blast
  with assms(3) have r: "run ?result (schedule @ rest) (initial urls k) = Some s'"
    by (simp add: run_append)
  with rest(2) assms(1,2)
  have p: "process_search_results urls net k (schedule @ rest) = Some (Inr (gather s'))"
    by (simp add: process_search_results_def)
  from process_search_results_returns [OF assms(2) p]
  have "gather s' = map ?result [0..<length urls]" .
  with p show ?thesis by auto
qed

text \<open>
  Claim C4, as the code has it. The function never raises. When the fetch fails, or the
  text of the page cannot be parsed, the result is the empty list and the failure is
  printed. When an exception is raised later, while the links are examined, it is printed
  as well and the result is exactly the list of the links kept among those that come
  before the link that raised, a prefix of what the page would have given without the
  failure. In a batch each result slot holds what the call for its own URL returned, so a
  failure for one URL leaves the others as they are; and for a limit of 1 or more and URLs
  that \<^verbatim>\<open>urlparse\<close> accepts, whatever has run so far, the batch can run on to the end and
  then returns one list for every URL.
\<close>

theorem get_external_links_soft_failure:
  "(snd (fetch_with_retries_default url net) = Inl e \<longrightarrow>
      get_external_links url net D
        = (fst (fetch_with_retries_default url net) @ [PrintError url e], []))
   \<and> (snd (fetch_with_retries_default url net) = Inr html_content
        \<and> BeautifulSoup html_content = Inl e \<longrightarrow>
      get_external_links url net D
        = (fst (fetch_with_retries_default url net) @ [PrintError url e], []))
   \<and> (snd (fetch_with_retries_default url net) = Inr (Some (Document d)) \<longrightarrow>
      snd (get_external_links url net D)
        = map link_url (filter (kept url D)
            (takeWhile (\<lambda>link. raised url link = None) (find_all_a d)))
      \<and> prefix (snd (get_external_links url net D))
             (map link_url (filter (kept url D) (find_all_a d)))
      \<and> fst (get_external_links url net D)
          = fst (fetch_with_retries_default url net)
            @ (case first_raised url (find_all_a d) of
                 None \<Rightarrow> [] | Some e' \<Rightarrow> [PrintError url e']))
   \<and> (search_result_domains_of urls = Inr D'
        \<and> process_search_results urls nets k schedule = Some (Inr r) \<longrightarrow>
      length r = length urls
      \<and> (\<forall>i < length urls. r ! i = snd (get_external_links (urls ! i) (nets i) D')))
   \<and> (1 \<le> k \<and> search_result_domains_of urls = Inr D'
        \<and> run (process_url urls nets D') schedule (initial urls k) = Some s \<longrightarrow>
      (\<exists>rest. process_search_results urls nets k (schedule @ rest)
         = Some (Inr (map (\<lambda>i. snd (get_external_links (urls ! i) (nets i) D'))
                        [0..<length urls]))))"
proof (intro conjI impI)
  assume "snd (fetch_with_retries_default url net) = Inl e"
  then show "get_external_links url net D
        = (fst (fetch_with_retries_default url net) @ [PrintError url e], [])"
    by (rule get_external_links_failed)
next
  assume "snd (fetch_with_retries_default url net) = Inr html_content
        \<and> BeautifulSoup html_content = Inl e"
  then show "get_external_links url net D
        = (fst (fetch_with_retries_default url net) @ [PrintError url e], [])"
    using get_external_links_unparsed by blast
next
  assume a: "snd (fetch_with_retries_default url net) = Inr (Some (Document d))"
  show "snd (get_external_links url net D)
        = map link_url (filter (kept url D)
            (takeWhile (\<lambda>link. raised url link = None) (find_all_a d)))"
    by (rule get_external_links_document [OF a])
  show "prefix (snd (get_external_links url net D))
             (map link_url (filter (kept url D) (find_all_a d)))"
    unfolding get_external_links_document [OF a] by (rule prefix_map_filter_takeWhile)
  show "fst (get_external_links url net D)
          = fst (fetch_with_retries_default url net)
            @ (case first_raised url (find_all_a d) of
                 None \<Rightarrow> [] | Some e' \<Rightarrow> [PrintError url e'])"
    by (rule get_external_links_trace [OF a])
next
  assume a: "search_result_domains_of urls = Inr D'
        \<and> process_search_results urls nets k schedule = Some (Inr r)"
  then have r: "r = map (process_url urls nets D') [0..<length urls]"
    using process_search_results_returns by blast
  show "length r = length urls" by (simp add: r)
  show "\<forall>i < length urls. r ! i = snd (get_external_links (urls ! i) (nets i) D')"
    by (simp add: r process_url_def)
next
  assume a: "1 \<le> k \<and> search_result_domains_of urls = Inr D'
        \<and> run (process_url urls nets D') schedule (initial urls k) = Some s"
  have "map (process_url urls nets D') [0..<length urls]
      = map (\<lambda>i. snd (get_external_links (urls ! i) (nets i) D')) [0..<length urls]"
    by (simp add: process_url_def)
  with a process_search_results_continues [of k urls D' nets schedule s]
  show "\<exists>rest. process_search_results urls nets k (schedule @ rest)
         = Some (Inr (map (\<lambda>i. snd (get_external_links (urls ! i) (nets i) D'))
                        [0..<length urls]))"
    by simp
qed


text \<open>
  A page whose second link makes \<^verbatim>\<open>urlparse\<close> raise \<^verbatim>\<open>ValueError\<close> (an opening bracket
  without the closing one in the network location): the failure is printed, and the
  result is not empty but holds the link that was kept before.
\<close>

theorem get_external_links_partial_list:
  "get_external_links ''https://a.com/x''
     (stub [Response 200 (Inr (Document
        \<lparr>find_all_a = [Some ''https://b.com/z'', Some ''http://[bad''],
         find_all_div_tF2Cxc = []\<rparr>))])
     {''a.com'', ''b.com''}
   = ([Get ''https://a.com/x'', PrintError ''https://a.com/x'' ValueError], [''https://b.com/z''])"
  by code_simp

text \<open>
  The test of the code is the substring \<^verbatim>\<open>http\<close>, not the presence of a scheme. The link
  \<^verbatim>\<open>ftp://b.com/z\<close> is a complete URL with a scheme, to a known domain other than that of
  the page, and is not kept; the link \<^verbatim>\<open>//b.com/http\<close> has no scheme and is kept.
\<close>

theorem get_external_links_scheme_not_tested:
  "spec_complete_url ''ftp://b.com/z''
   \<and> spec_domain ''ftp://b.com/z'' \<noteq> spec_domain ''https://a.com/x''
   \<and> spec_domain ''ftp://b.com/z'' \<in> {''a.com'', ''b.com''}
   \<and> snd (get_external_links ''https://a.com/x''
        (stub [Response 200 (Inr (Document
           \<lparr>find_all_a = [Some ''ftp://b.com/z''], find_all_div_tF2Cxc = []\<rparr>))])
        {''a.com'', ''b.com''}) = []
   \<and> \<not> spec_complete_url ''//b.com/http''
   \<and> snd (get_external_links ''https://a.com/x''
        (stub [Response 200 (Inr (Document
           \<lparr>find_all_a = [Some ''//b.com/http''], find_all_div_tF2Cxc = []\<rparr>))])
        {''a.com'', ''b.com''}) = [''//b.com/http'']"
  by code_simp

lemma urlparse_a_x:
  "urlparse ''https://a.com/x'' =
     Inr \<lparr>scheme = ''https'', netloc = ''a.com'', path = ''/x'', params = [], query = [], fragment = []\<rparr>"
  by code_simp

lemma urlparse_a_y:
  "urlparse ''https://a.com/y'' =
     Inr \<lparr>scheme = ''https'', netloc = ''a.com'', path = ''/y'', params = [], query = [], fragment = []\<rparr>"
  by code_simp

lemma urlparse_b_z:
  "urlparse ''https://b.com/z'' =
     Inr \<lparr>scheme = ''https'', netloc = ''b.com'', path = ''/z'', params = [], query = [], fragment = []\<rparr>"
  by code_simp

lemma geturl_b_z:
  "geturl \<lparr>scheme = ''https'', netloc = ''b.com'', path = ''/z'', params = [], query = [], fragment = []\<rparr> =
     ''https://b.com/z''"
  by code_simp

text \<open>
  The example of the specification: the link to the other known domain is returned, the
  link to the page's own domain is not.
\<close>

theorem get_external_links_keeps_witness:
  "''https://b.com/z'' \<in> set (snd (get_external_links ''https://a.com/x''
         (stub [Response 200 (Inr (Document
            \<lparr>find_all_a = [Some ''https://a.com/y'', Some ''https://b.com/z''],
             find_all_div_tF2Cxc = []\<rparr>))])
         {''a.com'', ''b.com''}))
   \<and> ''https://a.com/y'' \<notin> set (snd (get_external_links ''https://a.com/x''
         (stub [Response 200 (Inr (Document
            \<lparr>find_all_a = [Some ''https://a.com/y'', Some ''https://b.com/z''],
             find_all_div_tF2Cxc = []\<rparr>))])
         {''a.com'', ''b.com''}))"
proof -
  let ?d = "\<lparr>find_all_a = [Some ''https://a.com/y'', Some ''https://b.com/z''],
             find_all_div_tF2Cxc = []\<rparr>"
  let ?net = "stub [Response 200 (Inr (Document ?d))]"
  have h1: "snd (fetch_with_retries_default ''https://a.com/x'' ?net) = Inr (Some (Document ?d))"
    by code_simp
  have h2: "\<forall>link \<in> set (find_all_a ?d). raised ''https://a.com/x'' link = None"
    by code_simp
  note iff = get_external_links_keeps [OF h1 h2, THEN conjunct1, of _ "{''a.com'', ''b.com''}"]
  have http: "sublist ''http'' ''https://b.com/z''" by code_simp
  have ne: "netloc \<lparr>scheme = ''https'', netloc = ''b.com'', path = ''/z'', params = [], query = [], fragment = []\<rparr>
     \<noteq> netloc \<lparr>scheme = ''https'', netloc = ''a.com'', path = ''/x'', params = [], query = [], fragment = []\<rparr>"
    by simp
  have "''https://b.com/z'' \<in> set (snd (get_external_links ''https://a.com/x'' ?net {''a.com'', ''b.com''}))"
    unfolding iff
    apply (rule exI [of _ "''https://b.com/z''"])
    apply (rule exI [of _ "\<lparr>scheme = ''https'', netloc = ''b.com'', path = ''/z'', params = [], query = [], fragment = []\<rparr>"])
    apply (rule exI [of _ "\<lparr>scheme = ''https'', netloc = ''a.com'', path = ''/x'', params = [], query = [], fragment = []\<rparr>"])
    using http by (simp add: urlparse_a_x urlparse_b_z geturl_b_z)
  moreover have "''https://a.com/y'' \<notin> set (snd (get_external_links ''https://a.com/x'' ?net {''a.com'', ''b.com''}))"
  proof
    assume "''https://a.com/y'' \<in> set (snd (get_external_links ''https://a.com/x'' ?net {''a.com'', ''b.com''}))"
    then obtain href parsed_href parsed_website
      where h: "Some href \<in> set (find_all_a ?d)" "urlparse href = Inr parsed_href"
        "urlparse ''https://a.com/x'' = Inr parsed_website"
        "netloc parsed_href \<noteq> netloc parsed_website" "''https://a.com/y'' = geturl parsed_href"
      unfolding iff by blast
    from h(1) have "href = ''https://a.com/y'' \<or> href = ''https://b.com/z''" by simp
    then show False
    proof
      assume "href = ''https://a.com/y''"
      with h(2,3,4) show False by (auto simp: urlparse_a_x urlparse_a_y)
    next
      assume "href = ''https://b.com/z''"
      with h(2) have "geturl parsed_href = ''https://b.com/z''"
        using geturl_b_z by (auto simp: urlparse_b_z)
      with h(5) show False by simp
    qed
  qed
  ultimately show ?thesis by blast
qed


text \<open>
  A network that refuses every connection; a text that cannot be parsed; a page whose
  second link has a name between brackets, which makes \<^verbatim>\<open>urlparse\<close> raise; and a batch of
  two URLs of which the first cannot be fetched, under a schedule that returns and from a
  state in which only the failed coroutine has run.
\<close>

theorem get_external_links_soft_failure_witness:
  "get_external_links ''https://a.com/x'' (stub []) {''a.com'', ''b.com''}
     = ([Get ''https://a.com/x'', Sleep 1, Get ''https://a.com/x'', Sleep 2, Get ''https://a.com/x'',
         PrintError ''https://a.com/x'' ClientConnectionError], [])
   \<and> get_external_links ''https://a.com/x'' (stub [Response 200 (Inr (Malformed ValueError))])
        {''a.com'', ''b.com''}
     = ([Get ''https://a.com/x'', PrintError ''https://a.com/x'' ValueError], [])
   \<and> snd (get_external_links ''https://a.com/x''
         (stub [Response 200 (Inr (Document
            \<lparr>find_all_a = [Some ''https://b.com/z'', Some ''http://[bad]/x'', Some ''https://b.com/w''],
             find_all_div_tF2Cxc = []\<rparr>))])
         {''a.com'', ''b.com''}) = [''https://b.com/z'']
   \<and> prefix (snd (get_external_links ''https://a.com/x''
         (stub [Response 200 (Inr (Document
            \<lparr>find_all_a = [Some ''https://b.com/z'', Some ''http://[bad]/x'', Some ''https://b.com/w''],
             find_all_div_tF2Cxc = []\<rparr>))])
         {''a.com'', ''b.com''})) [''https://b.com/z'', ''https://b.com/w'']
   \<and> fst (get_external_links ''https://a.com/x''
         (stub [Response 200 (Inr (Document
            \<lparr>find_all_a = [Some ''https://b.com/z'', Some ''http://[bad]/x'', Some ''https://b.com/w''],
             find_all_div_tF2Cxc = []\<rparr>))])
         {''a.com'', ''b.com''})
       = [Get ''https://a.com/x'', PrintError ''https://a.com/x'' ValueError]
   \<and> snd (get_external_links ''https://b.com/z''
         (stub [Response 200 (Inr (Document
            \<lparr>find_all_a = [Some ''https://a.com/y''], find_all_div_tF2Cxc = []\<rparr>))])
         {''a.com'', ''b.com''}) = [''https://a.com/y'']
   \<and> (\<exists>rest. process_search_results [''https://a.com/x'', ''https://b.com/z'']
         (per_task [stub [], stub [Response 200 (Inr (Document
            \<lparr>find_all_a = [Some ''https://a.com/y''], find_all_div_tF2Cxc = []\<rparr>))]])
         1 ([Acquire 0, Release 0] @ rest) = Some (Inr [[], [''https://a.com/y'']]))"
proof -
  let ?u = "''https://a.com/x''"
  let ?D = "{''a.com'', ''b.com''}"
  let ?d = "\<lparr>find_all_a = [Some ''https://b.com/z'', Some ''http://[bad]/x'', Some ''https://b.com/w''],
             find_all_div_tF2Cxc = []\<rparr>"
  let ?db = "\<lparr>find_all_a = [Some ''https://a.com/y''], find_all_div_tF2Cxc = []\<rparr>"
  let ?nets = "per_task [stub [], stub [Response 200 (Inr (Document ?db))]]"
  let ?urls = "[?u, ''https://b.com/z'']"
  have f1: "snd (fetch_with_retries_default ?u (stub [])) = Inl ClientConnectionError"
    by code_simp
  have t1: "fst (fetch_with_retries_default ?u (stub []))
     = [Get ?u, Sleep 1, Get ?u, Sleep 2, Get ?u]"
    by code_simp
  have f2: "snd (fetch_with_retries_default ?u (stub [Response 200 (Inr (Malformed ValueError))]))
       = Inr (Some (Malformed ValueError))
     \<and> BeautifulSoup (Some (Malformed ValueError)) = Inl ValueError"
    by code_simp
  have t2: "fst (fetch_with_retries_default ?u (stub [Response 200 (Inr (Malformed ValueError))]))
     = [Get ?u]"
    by code_simp
  have f3: "snd (fetch_with_retries_default ?u (stub [Response 200 (Inr (Document ?d))]))
       = Inr (Some (Document ?d))"
    by code_simp
  have t3: "fst (fetch_with_retries_default ?u (stub [Response 200 (Inr (Document ?d))])) = [Get ?u]"
    by code_simp
  have r3: "map link_url (filter (kept ?u ?D) (find_all_a ?d)) = [''https://b.com/z'', ''https://b.com/w'']"
    by code_simp
  have k3: "map link_url (filter (kept ?u ?D)
       (takeWhile (\<lambda>link. raised ?u link = None) (find_all_a ?d))) = [''https://b.com/z'']"
    by code_simp
  have e3: "first_raised ?u (find_all_a ?d) = Some ValueError"
    by code_simp
  have f4: "search_result_domains_of ?urls = Inr ?D
     \<and> process_search_results ?urls ?nets 2
          [Acquire 0, Acquire 1, Release 1, Release 0] = Some (Inr [[], [''https://a.com/y'']])"
    by code_simp
  have f5: "(1::int) \<le> 1 \<and> search_result_domains_of ?urls = Inr ?D
     \<and> run (process_url ?urls ?nets ?D) [Acquire 0, Release 0] (initial ?urls 1)
         = Some \<lparr>semaphore = 1, tasks = [Done [], Waiting]\<rparr>"
    by code_simp
  have m5: "map (\<lambda>i. snd (get_external_links (?urls ! i) (?nets i) ?D)) [0..<length ?urls]
     = [[], [''https://a.com/y'']]"
    by code_simp
  have n1: "?nets 1 = stub [Response 200 (Inr (Document ?db))]"
    by (simp add: per_task_def)
  have 1: "get_external_links ?u (stub []) ?D
     = ([Get ?u, Sleep 1, Get ?u, Sleep 2, Get ?u, PrintError ?u ClientConnectionError], [])"
    using get_external_links_soft_failure [of ?u "stub []" ClientConnectionError ?D] f1 t1 by simp
  have 2: "get_external_links ?u (stub [Response 200 (Inr (Malformed ValueError))]) ?D
     = ([Get ?u, PrintError ?u ValueError], [])"
    using get_external_links_soft_failure [of ?u "stub [Response 200 (Inr (Malformed ValueError))]" ValueError ?D
                "Some (Malformed ValueError)"] f2 t2 by simp
  have 3: "snd (get_external_links ?u (stub [Response 200 (Inr (Document ?d))]) ?D)
         = [''https://b.com/z'']
     \<and> prefix (snd (get_external_links ?u (stub [Response 200 (Inr (Document ?d))]) ?D))
             [''https://b.com/z'', ''https://b.com/w'']
     \<and> fst (get_external_links ?u (stub [Response 200 (Inr (Document ?d))]) ?D)
         = [Get ?u, PrintError ?u ValueError]"
    using get_external_links_soft_failure [of ?u "stub [Response 200 (Inr (Document ?d))]" _ ?D _ ?d] f3 t3 r3 k3 e3 by simp
  have "\<forall>i < length ?urls.
      [[], [''https://a.com/y'']] ! i
        = snd (get_external_links (?urls ! i) (?nets i) ?D)"
    using get_external_links_soft_failure [of _ _ _ _ _ _ ?urls ?D ?nets 2
                "[Acquire 0, Acquire 1, Release 1, Release 0]" "[[], [''https://a.com/y'']]"] f4
    by blast
  from this [rule_format, of 1]
  have "[[], [''https://a.com/y'']] ! 1
        = snd (get_external_links (?urls ! 1) (?nets 1) ?D)"
    by simp
  then have 4: "snd (get_external_links ''https://b.com/z''
       (stub [Response 200 (Inr (Document ?db))]) ?D) = [''https://a.com/y'']"
    unfolding n1 by simp
  have "\<exists>rest. process_search_results ?urls ?nets 1 ([Acquire 0, Release 0] @ rest)
         = Some (Inr (map (\<lambda>i. snd (get_external_links (?urls ! i) (?nets i) ?D))
                        [0..<length ?urls]))"
    using get_external_links_soft_failure [of _ _ _ _ _ _ ?urls ?D ?nets 1 "[Acquire 0, Release 0]" _
                "\<lparr>semaphore = 1, tasks = [Done [], Waiting]\<rparr>"] f5
    by blast
  then have 5: "\<exists>rest. process_search_results ?urls ?nets 1 ([Acquire 0, Release 0] @ rest)
         = Some (Inr [[], [''https://a.com/y'']])"
    unfolding m5 .
  from 1 2 3 4 5 show ?thesis by blast
qed

section \<open>Properties of \<^verbatim>\<open>scrape_google_search_results\<close> and \<^verbatim>\<open>process_search_results\<close>\<close>

lemma results_loop_step:
  "results_loop excl (result # rest) acc =
     (case raised_result result of
        Some e \<Rightarrow> ([], Inl e)
      | None \<Rightarrow>
          if \<not> list_ex (\<lambda>website. sublist website (url_text (result_link result))) excl
          then results_loop excl rest (acc @ [result_link result])
          else (PrintExcluded (url_text (result_link result)) # fst (results_loop excl rest acc),
                snd (results_loop excl rest acc)))"
proof (cases result)
  case None
  then show ?thesis by (simp add: raised_result_def)
next
  case (Some a)
  show ?thesis
  proof (cases a)
    case None
    with Some show ?thesis by (simp add: raised_result_def)
  next
    case (Some link)
    with \<open>result = Some a\<close> show ?thesis
      by (cases "urlparse link")
         (simp_all add: raised_result_def result_link_def url_text_def split: prod.splits)
  qed
qed

lemma results_loop_ok:
  assumes "\<forall>result \<in> set results. raised_result result = None"
  shows "snd (results_loop excl results acc)
    = Inr (acc @ filter (\<lambda>link. \<not> list_ex (\<lambda>website. sublist website (url_text link)) excl)
                   (map result_link results))"
  using assms
proof (induction results arbitrary: acc)
  case Nil
  show ?case by simp
next
  case (Cons result rest)
  from Cons.prems have r: "raised_result result = None"
    and rest: "\<forall>result \<in> set rest. raised_result result = None" by simp_all
  show ?case
    unfolding results_loop_step [of excl result rest acc]
    by (simp add: r Cons.IH [OF rest])
qed

lemma scrape_document:
  assumes "snd (fetch_with_retries_default (search_url q n lang) net) = Inr (Some (Document d))"
    and "\<forall>result \<in> set (find_all_div_tF2Cxc d). raised_result result = None"
  shows "snd (scrape_google_search_results q n lang excl net)
    = filter (\<lambda>link. \<not> list_ex (\<lambda>website. sublist website (url_text link)) excl)
        (map result_link (find_all_div_tF2Cxc d))"
proof -
  obtain trace where f: "fetch_with_retries_default (search_url q n lang) net
      = (trace, Inr (Some (Document d)))"
    using assms(1) by (cases "fetch_with_retries_default (search_url q n lang) net") simp
  obtain trace' r where l: "results_loop excl (find_all_div_tF2Cxc d) [] = (trace', r)"
    by (cases "results_loop excl (find_all_div_tF2Cxc d) []")
  from results_loop_ok [OF assms(2), of excl "[]"] l
  have "r = Inr (filter (\<lambda>link. \<not> list_ex (\<lambda>website. sublist website (url_text link)) excl)
        (map result_link (find_all_div_tF2Cxc d)))" by simp
  with f l show ?thesis
    by (simp add: scrape_google_search_results_def)
qed

text \<open>
  Claim C7, as the code has it. When the result page is fetched and parsed and every
  result container gives a link that \<^verbatim>\<open>urlparse\<close> accepts, the returned list is the list
  of the links, in their order, without those for which the URL as \<^verbatim>\<open>geturl()\<close> writes it
  contains one of the excluded substrings. An empty exclude list keeps every link. For
  links that \<^verbatim>\<open>geturl()\<close> writes as they stand, a link is left out if and only if the
  link itself contains one of the excluded substrings.
\<close>

theorem scrape_google_search_results_excludes:
  assumes "snd (fetch_with_retries_default (search_url q n lang) net) = Inr (Some (Document d))"
    and "\<forall>result \<in> set (find_all_div_tF2Cxc d). raised_result result = None"
  shows "snd (scrape_google_search_results q n lang exclude_websites net)
      = filter (\<lambda>link. \<not> (\<exists>website \<in> set exclude_websites. sublist website (url_text link)))
          (map result_link (find_all_div_tF2Cxc d))
    \<and> (exclude_websites = [] \<longrightarrow>
         snd (scrape_google_search_results q n lang exclude_websites net)
           = map result_link (find_all_div_tF2Cxc d))
    \<and> ((\<forall>result \<in> set (find_all_div_tF2Cxc d). url_text (result_link result) = result_link result)
        \<longrightarrow> snd (scrape_google_search_results q n lang exclude_websites net)
           = filter (\<lambda>link. \<not> (\<exists>website \<in> set exclude_websites. sublist website link))
               (map result_link (find_all_div_tF2Cxc d)))"
proof -
  have eq: "snd (scrape_google_search_results q n lang exclude_websites net)
      = filter (\<lambda>link. \<not> (\<exists>website \<in> set exclude_websites. sublist website (url_text link)))
          (map result_link (find_all_div_tF2Cxc d))"
    unfolding scrape_document [OF assms] by (simp add: list_ex_iff)
  have e: "snd (scrape_google_search_results q n lang exclude_websites net)
           = map result_link (find_all_div_tF2Cxc d)" if "exclude_websites = []"
    unfolding eq using that by simp
  have nf: "snd (scrape_google_search_results q n lang exclude_websites net)
           = filter (\<lambda>link. \<not> (\<exists>website \<in> set exclude_websites. sublist website link))
               (map result_link (find_all_div_tF2Cxc d))"
    if "\<forall>result \<in> set (find_all_div_tF2Cxc d). url_text (result_link result) = result_link result"
    unfolding eq using that by (intro filter_cong) auto
  from eq e nf show ?thesis by blast
qed

text \<open>
  The link \<^verbatim>\<open>https://a.com/search?\<close> contains the excluded substring \<^verbatim>\<open>search?\<close>, but
  \<^verbatim>\<open>geturl()\<close> drops the question mark of an empty query, so the link is kept.
\<close>

theorem scrape_google_search_results_keeps_excluded:
  "sublist ''search?'' ''https://a.com/search?''
   \<and> snd (scrape_google_search_results ''q'' 10 ''us'' [''search?'']
        (stub [Response 200 (Inr (Document
           \<lparr>find_all_a = [], find_all_div_tF2Cxc = [Some (Some ''https://a.com/search?'')]\<rparr>))]))
     = [''https://a.com/search?'']"
  by code_simp

text \<open>
  Claim C9. When the fetch of the result page fails, the function does not raise: it shows
  the error to the user with \<^verbatim>\<open>st.error\<close> and returns the empty list.
\<close>

theorem scrape_google_search_results_fetch_failure:
  assumes "snd (fetch_with_retries_default (search_url q n lang) net) = Inl e"
  shows "scrape_google_search_results q n lang exclude_websites net
     = (fst (fetch_with_retries_default (search_url q n lang) net) @ [StError e], [])"
proof -
  obtain trace where "fetch_with_retries_default (search_url q n lang) net = (trace, Inl e)"
    using assms by (cases "fetch_with_retries_default (search_url q n lang) net") simp
  then show ?thesis
    by (simp add: scrape_google_search_results_def)
qed

text \<open>
  Claim C5. In every state that the event loop can reach, the number of coroutines inside
  the semaphore block, that is of fetches in flight, is at most the concurrency limit; when
  it equals the limit no waiting coroutine can enter before one leaves. The default limit
  is 5.
\<close>

theorem process_search_results_bounded:
  assumes "0 \<le> concurrency_limit"
    and "run (process_url urls net D) schedule (initial urls concurrency_limit) = Some s"
  shows "int (in_flight s) \<le> concurrency_limit
    \<and> (int (in_flight s) = concurrency_limit
         \<longrightarrow> exec (process_url urls net D) (Acquire i) s = None)
    \<and> process_search_results_default urls net schedule
        = process_search_results urls net 5 schedule"
proof -
  have "semaphore s + in_flight s = nat concurrency_limit"
    using run_semaphore [OF assms(2)] by (simp add: in_flight_initial) (simp add: initial_def)
  with assms(1) show ?thesis
    by (auto simp: process_search_results_default_def)
qed

text \<open>
  Claim C1. For a concurrency limit of 1 or more and URLs that \<^verbatim>\<open>urlparse\<close> accepts, the
  function returns; whatever the order in which the coroutines run and complete, what it
  returns is one list per URL, as many lists as URLs, the \<open>i\<close>-th being the links of the
  \<open>i\<close>-th URL. Every run of the event loop takes at most two steps per URL and can be
  continued to the point where the function returns.
\<close>

theorem process_search_results_one_list_per_url:
  assumes "1 \<le> concurrency_limit" and "search_result_domains_of urls = Inr D"
  shows "(\<exists>schedule. process_search_results urls net concurrency_limit schedule
            = Some (Inr (map (\<lambda>i. snd (get_external_links (urls ! i) (net i) D)) [0..<length urls])))
    \<and> (\<forall>schedule r. process_search_results urls net concurrency_limit schedule = Some r \<longrightarrow>
          (\<exists>records. r = Inr records \<and> length records = length urls
             \<and> (\<forall>i < length urls. records ! i = snd (get_external_links (urls ! i) (net i) D))))
    \<and> (\<forall>schedule s. run (process_url urls net D) schedule (initial urls concurrency_limit) = Some s
          \<longrightarrow> length schedule \<le> 2 * length urls
             \<and> (\<exists>rest. process_search_results urls net concurrency_limit (schedule @ rest) \<noteq> None))"
proof (intro conjI allI impI)
  let ?result = "process_url urls net D"
  let ?expected = "map (\<lambda>i. snd (get_external_links (urls ! i) (net i) D)) [0..<length urls]"
  have exp: "map ?result [0..<length urls] = ?expected"
    by (simp add: process_url_def)
  have pos: "0 < semaphore (initial urls concurrency_limit) + in_flight (initial urls concurrency_limit)"
    using assms(1) by (simp add: initial_def)
  have returns: "process_search_results urls net concurrency_limit schedule = Some (Inr ?expected)"
    if "run ?result schedule (initial urls concurrency_limit) = Some s" and "all_done s"
    for schedule s
  proof -
    from that assms have p: "process_search_results urls net concurrency_limit schedule
        = Some (Inr (gather s))"
      by (simp add: process_search_results_def)
    from process_search_results_returns [OF assms(2) p] show ?thesis
      using p exp by simp
  qed
  {
    from completes [OF pos, of ?result] obtain schedule s
      where "run ?result schedule (initial urls concurrency_limit) = Some s" "all_done s"
      by blast
    then have "process_search_results urls net concurrency_limit schedule = Some (Inr ?expected)"
      by (rule returns)
    then show "\<exists>schedule. process_search_results urls net concurrency_limit schedule
            = Some (Inr ?expected)" ..
  }
  {
    fix schedule r
    assume a: "process_search_results urls net concurrency_limit schedule = Some r"
    with assms obtain records where r: "r = Inr records"
      by (auto simp: process_search_results_def split: option.splits if_splits)
    with a have "records = map ?result [0..<length urls]"
      using process_search_results_returns [OF assms(2)] by blast
    then have "length records = length urls
       \<and> (\<forall>i < length urls. records ! i = snd (get_external_links (urls ! i) (net i) D))"
      by (simp add: process_url_def)
    with r show "\<exists>records. r = Inr records \<and> length records = length urls
             \<and> (\<forall>i < length urls. records ! i = snd (get_external_links (urls ! i) (net i) D))"
      by blast
  }
  {
    fix schedule s
    assume r: "run ?result schedule (initial urls concurrency_limit) = Some s"
    from run_pending [OF r] show "length schedule \<le> 2 * length urls"
      by (simp add: pending_initial)
    have "0 < semaphore s + in_flight s"
      using run_semaphore [OF r] pos by simp
    from completes [OF this, of ?result] obtain rest s'
      where rest: "run ?result rest s = Some s'" "all_done s'" by blast
    with r have "run ?result (schedule @ rest) (initial urls concurrency_limit) = Some s'"
      by (simp add: run_append)
    from returns [OF this rest(2)]
    show "\<exists>rest. process_search_results urls net concurrency_limit (schedule @ rest) \<noteq> None"
      by auto
  }
qed

text \<open>
  The example of the specification: the substring \<^verbatim>\<open>spam.com\<close> excludes a result whether it
  is in the host or in the path; the empty exclude list keeps the four results.
\<close>

theorem scrape_google_search_results_excludes_witness:
  "snd (scrape_google_search_results ''q'' 10 ''us'' [''spam.com'']
      (stub [Response 200 (Inr (Document
         \<lparr>find_all_a = [],
          find_all_div_tF2Cxc = [Some (Some ''https://ok.com/1''), Some (Some ''https://spam.com/a''),
             Some (Some ''https://ok.com/spam.com/x''), Some (Some ''https://z.org/'')]\<rparr>))]))
     = [''https://ok.com/1'', ''https://z.org/'']
   \<and> snd (scrape_google_search_results ''q'' 10 ''us'' []
      (stub [Response 200 (Inr (Document
         \<lparr>find_all_a = [],
          find_all_div_tF2Cxc = [Some (Some ''https://ok.com/1''), Some (Some ''https://spam.com/a''),
             Some (Some ''https://ok.com/spam.com/x''), Some (Some ''https://z.org/'')]\<rparr>))]))
     = [''https://ok.com/1'', ''https://spam.com/a'', ''https://ok.com/spam.com/x'', ''https://z.org/'']"
proof -
  let ?d = "\<lparr>find_all_a = [],
          find_all_div_tF2Cxc = [Some (Some ''https://ok.com/1''), Some (Some ''https://spam.com/a''),
             Some (Some ''https://ok.com/spam.com/x''), Some (Some ''https://z.org/'')]\<rparr>"
  let ?net = "stub [Response 200 (Inr (Document ?d))]"
  have h1: "snd (fetch_with_retries_default (search_url ''q'' 10 ''us'') ?net) = Inr (Some (Document ?d))"
    by code_simp
  have h2: "\<forall>result \<in> set (find_all_div_tF2Cxc ?d). raised_result result = None"
    by code_simp
  have h3: "\<forall>result \<in> set (find_all_div_tF2Cxc ?d). url_text (result_link result) = result_link result"
    by code_simp
  have rhs: "filter (\<lambda>link. \<not> (\<exists>website \<in> set [''spam.com'']. sublist website link))
               (map result_link (find_all_div_tF2Cxc ?d)) = [''https://ok.com/1'', ''https://z.org/'']"
    by code_simp
  have all: "map result_link (find_all_div_tF2Cxc ?d)
     = [''https://ok.com/1'', ''https://spam.com/a'', ''https://ok.com/spam.com/x'', ''https://z.org/'']"
    by code_simp
  from scrape_google_search_results_excludes [OF h1 h2, of "[''spam.com'']"] h3
  have "snd (scrape_google_search_results ''q'' 10 ''us'' [''spam.com''] ?net)
     = filter (\<lambda>link. \<not> (\<exists>website \<in> set [''spam.com'']. sublist website link))
               (map result_link (find_all_div_tF2Cxc ?d))"
    by blast
  then have a: "snd (scrape_google_search_results ''q'' 10 ''us'' [''spam.com''] ?net)
     = [''https://ok.com/1'', ''https://z.org/'']"
    unfolding rhs .
  from scrape_google_search_results_excludes [OF h1 h2, of "[]"]
  have "snd (scrape_google_search_results ''q'' 10 ''us'' [] ?net)
     = map result_link (find_all_div_tF2Cxc ?d)"
    by blast
  then have b: "snd (scrape_google_search_results ''q'' 10 ''us'' [] ?net)
     = [''https://ok.com/1'', ''https://spam.com/a'', ''https://ok.com/spam.com/x'', ''https://z.org/'']"
    unfolding all .
  from a b show ?thesis by (rule conjI)
qed

text \<open>
  A network that refuses every connection.
\<close>

theorem scrape_google_search_results_fetch_failure_witness:
  "scrape_google_search_results ''q'' 10 ''us'' [] (stub [])
     = ([Get ''https://www.google.com/search?q=q&num=10&gl=us'', Sleep 1,
         Get ''https://www.google.com/search?q=q&num=10&gl=us'', Sleep 2,
         Get ''https://www.google.com/search?q=q&num=10&gl=us'',
         StError ClientConnectionError], [])"
proof -
  have h: "snd (fetch_with_retries_default (search_url ''q'' 10 ''us'') (stub [])) = Inl ClientConnectionError"
    by code_simp
  have t: "fst (fetch_with_retries_default (search_url ''q'' 10 ''us'') (stub []))
     = [Get ''https://www.google.com/search?q=q&num=10&gl=us'', Sleep 1,
         Get ''https://www.google.com/search?q=q&num=10&gl=us'', Sleep 2,
         Get ''https://www.google.com/search?q=q&num=10&gl=us'']"
    by code_simp
  show ?thesis
    unfolding scrape_google_search_results_fetch_failure [OF h, of "[]"] t by simp
qed

text \<open>
  Two URLs and a limit of 1: after the first coroutine has entered, the second cannot.
\<close>

theorem process_search_results_bounded_witness:
  "in_flight \<lparr>semaphore = 0, tasks = [Running, Waiting]\<rparr> \<le> 1
   \<and> exec (process_url [''https://a.com/x'', ''https://b.com/z''] (per_task []) {''a.com'', ''b.com''})
        (Acquire 1) \<lparr>semaphore = 0, tasks = [Running, Waiting]\<rparr> = None"
proof -
  let ?result = "process_url [''https://a.com/x'', ''https://b.com/z''] (per_task []) {''a.com'', ''b.com''}"
  let ?s = "\<lparr>semaphore = 0, tasks = [Running, Waiting]\<rparr>"
  have h1: "(0::int) \<le> 1" by simp
  have h2: "run ?result [Acquire 0] (initial [''https://a.com/x'', ''https://b.com/z''] 1) = Some ?s"
    by (simp add: initial_def)
  have f: "int (in_flight ?s) = 1"
    by (simp add: in_flight_def)
  from process_search_results_bounded [OF h1 h2, of 1] f show ?thesis by simp
qed

text \<open>
  Two URLs and a limit of 1, the second coroutine running before the first: the lists come
  in the order of the URLs.
\<close>

theorem process_search_results_one_list_per_url_witness:
  "process_search_results [''https://a.com/x'', ''https://b.com/z'']
      (per_task [stub [Response 200 (Inr (Document
                    \<lparr>find_all_a = [Some ''https://a.com/y'', Some ''https://b.com/z''],
                     find_all_div_tF2Cxc = []\<rparr>))],
                 stub [Response 200 (Inr (Document
                    \<lparr>find_all_a = [Some ''https://a.com/y''], find_all_div_tF2Cxc = []\<rparr>))]])
      1 [Acquire 1, Release 1, Acquire 0, Release 0]
     = Some (Inr [[''https://b.com/z''], [''https://a.com/y'']])
   \<and> snd (get_external_links ''https://a.com/x''
        (stub [Response 200 (Inr (Document
                    \<lparr>find_all_a = [Some ''https://a.com/y'', Some ''https://b.com/z''],
                     find_all_div_tF2Cxc = []\<rparr>))]) {''a.com'', ''b.com''}) = [''https://b.com/z'']
   \<and> snd (get_external_links ''https://b.com/z''
        (stub [Response 200 (Inr (Document
                    \<lparr>find_all_a = [Some ''https://a.com/y''], find_all_div_tF2Cxc = []\<rparr>))])
        {''a.com'', ''b.com''}) = [''https://a.com/y'']"
proof -
  let ?urls = "[''https://a.com/x'', ''https://b.com/z'']"
  let ?na = "stub [Response 200 (Inr (Document
                    \<lparr>find_all_a = [Some ''https://a.com/y'', Some ''https://b.com/z''],
                     find_all_div_tF2Cxc = []\<rparr>))]"
  let ?nb = "stub [Response 200 (Inr (Document
                    \<lparr>find_all_a = [Some ''https://a.com/y''], find_all_div_tF2Cxc = []\<rparr>))]"
  let ?nets = "per_task [?na, ?nb]"
  let ?D = "{''a.com'', ''b.com''}"
  let ?schedule = "[Acquire 1, Release 1, Acquire 0, Release 0]"
  have h1: "(1::int) \<le> 1" by simp
  have h2: "search_result_domains_of ?urls = Inr ?D"
    by code_simp
  have p: "process_search_results ?urls ?nets 1 ?schedule
     = Some (Inr [[''https://b.com/z''], [''https://a.com/y'']])"
    by code_simp
  have n: "?nets 0 = ?na" "?nets 1 = ?nb"
    by (simp_all add: per_task_def)
  from process_search_results_one_list_per_url [OF h1 h2, of ?nets] p
  have "\<exists>records. Inr [[''https://b.com/z''], [''https://a.com/y'']] = (Inr records :: exc + string list list)
       \<and> length records = length ?urls
       \<and> (\<forall>i < length ?urls. records ! i = snd (get_external_links (?urls ! i) (?nets i) ?D))"
    by blast
  then have all: "\<forall>i < length ?urls. [[''https://b.com/z''], [''https://a.com/y'']] ! i
       = snd (get_external_links (?urls ! i) (?nets i) ?D)"
    by blast
  from all [rule_format, of 0] have a: "snd (get_external_links ''https://a.com/x'' ?na ?D) = [''https://b.com/z'']"
    unfolding n by simp
  from all [rule_format, of 1] have b: "snd (get_external_links ''https://b.com/z'' ?nb ?D) = [''https://a.com/y'']"
    unfolding n by simp
  from p a b show ?thesis by blast
qed

end
